theory Spec2Isabelle
  imports Main "HOL-Library.Word"
begin

unbundle bit_operations_syntax

section \<open>Go values shared by all packages\<close>

text \<open>
  A panic of the Go runtime or of the code is a value of \<open>go_panic\<close>; a function that can
  panic returns \<open>go_panic + 'a\<close>. A Go \<open>error\<close> is a message together with the error it
  wraps (\<open>errors.New\<close> wraps nothing, \<open>fmt.Errorf\<close> with \<open>%w\<close> wraps its operand); the
  \<open>nil\<close> error is \<open>None\<close> of \<open>go_error option\<close>.
\<close>

datatype go_panic =
    NilDereference
  | CloseOfClosedChannel
  | IndexOutOfRange
  | PanicError string
  | InvalidUniformLength

datatype go_error = GoError (ErrorString: string) (Unwrap: "go_error option")

definition errors_New :: "string \<Rightarrow> go_error" where
  "errors_New s = GoError s None"

type_synonym byte = "8 word"
type_synonym uint16 = "16 word"
type_synonym uint32 = "32 word"

text \<open>\<open>strconv\<close>'s base 10 rendering of an unsigned integer, as \<open>%d\<close> prints it.\<close>

fun FormatUint :: "nat \<Rightarrow> string" where
  "FormatUint n =
     (if n < 10 then [''0123456789'' ! n]
      else FormatUint (n div 10) @ [''0123456789'' ! (n mod 10)])"

declare FormatUint.simps [simp del]

text \<open>The bytes of a Go string literal.\<close>

definition string_bytes :: "string \<Rightarrow> byte list" where
  "string_bytes s = map of_char s"

text \<open>
  \<open>binary.BigEndian.PutUint32(IDBuffer[:], id)\<close> on the array \<open>IDBuffer [4]byte\<close>: all
  four bytes are overwritten, so the array afterwards is a function of \<open>id\<close> alone.
\<close>

definition BigEndian_PutUint32 :: "uint32 \<Rightarrow> byte list" where
  "BigEndian_PutUint32 v =
     [ucast (drop_bit 24 v), ucast (drop_bit 16 v), ucast (drop_bit 8 v), ucast v]"

text \<open>
  \<open>binary.LittleEndian.PutUint16(b, v)\<close> on a slice: the library's bounds check panics on
  a slice shorter than two bytes.
\<close>

definition LittleEndian_PutUint16 :: "byte list \<Rightarrow> uint16 \<Rightarrow> go_panic + byte list" where
  "LittleEndian_PutUint16 b v =
     (if length b < 2 then Inl IndexOutOfRange
      else Inr (b[0 := ucast v, 1 := ucast (drop_bit 8 v)]))"

section \<open>Scalars and points of edwards25519 (the group library)\<close>

text \<open>
  A scalar is an integer modulo the group order; the library keeps it reduced. It is a
  \<open>nat\<close> here and every operation writes the reduction out.
\<close>

type_synonym scalar = nat

definition group_order :: nat where
  "group_order = 2 ^ 252 + 27742317777372353535851937790883648493"

text \<open>The number a byte string encodes, least significant byte first.\<close>

fun le_nat :: "byte list \<Rightarrow> nat" where
  "le_nat [] = 0"
| "le_nat (b # bs) = unat b + 256 * le_nat bs"

definition NewScalar :: scalar where
  "NewScalar = 0"

definition Scalar_Add :: "scalar \<Rightarrow> scalar \<Rightarrow> scalar" where
  "Scalar_Add x y = (x + y) mod group_order"

definition Scalar_Multiply :: "scalar \<Rightarrow> scalar \<Rightarrow> scalar" where
  "Scalar_Multiply x y = (x * y) mod group_order"

text \<open>\<open>s.MultiplyAdd(x, y, z)\<close> sets \<open>s = x * y + z mod l\<close>.\<close>

definition Scalar_MultiplyAdd :: "scalar \<Rightarrow> scalar \<Rightarrow> scalar \<Rightarrow> scalar" where
  "Scalar_MultiplyAdd x y z = (x * y + z) mod group_order"

text \<open>
  \<open>SetCanonicalBytes\<close> accepts exactly the 32-byte little-endian encodings of the numbers
  below the group order and returns an error on anything else.
\<close>

definition SetCanonicalBytes :: "byte list \<Rightarrow> go_error + scalar" where
  "SetCanonicalBytes x =
     (if length x \<noteq> 32 then Inl (errors_New ''invalid scalar length'')
      else if \<not> le_nat x < group_order then Inl (errors_New ''invalid scalar encoding'')
      else Inr (le_nat x))"

text \<open>
  \<open>SetUniformBytes\<close> reduces a 64-byte string modulo the group order. It rejects any other
  length, by a panic in the releases of the library that return the scalar alone; a
  SHA-512 digest has 64 bytes, so the program does not reach that branch.
\<close>

definition SetUniformBytes :: "byte list \<Rightarrow> go_panic + scalar" where
  "SetUniformBytes x =
     (if length x \<noteq> 64 then Inl InvalidUniformLength
      else Inr (le_nat x mod group_order))"

text \<open>
  Points are the elements of an abelian group, written additively: \<open>Add\<close> is \<open>+\<close>,
  \<open>NewIdentityPoint\<close> is \<open>0\<close>, \<open>Equal\<close> is equality. \<open>ScalarMult\<close> adds a point to itself
  as often as the scalar says. The base point, the 32-byte encoding \<open>Bytes\<close> and SHA-512
  are parameters of the functions that use them.
\<close>

primrec ScalarMult :: "scalar \<Rightarrow> 'p::ab_group_add \<Rightarrow> 'p" where
  "ScalarMult 0 P = 0"
| "ScalarMult (Suc n) P = P + ScalarMult n P"

definition ScalarBaseMult :: "'p::ab_group_add \<Rightarrow> scalar \<Rightarrow> 'p" where
  "ScalarBaseMult basepoint s = ScalarMult s basepoint"

section \<open>Package party: identifiers\<close>

type_synonym party_ID = uint16

text \<open>\<open>ID.setScalar\<close> and \<open>ID.Scalar\<close>: the scalar of an identifier, or the panic.\<close>

definition setScalar :: "party_ID \<Rightarrow> go_panic + scalar" where
  "setScalar p =
     (case LittleEndian_PutUint16 (replicate 32 0) p of
        Inl pn \<Rightarrow> Inl pn
      | Inr bytes \<Rightarrow>
          (case SetCanonicalBytes bytes of
             Inl err \<Rightarrow>
               Inl (PanicError (''edwards25519: failed to set uint32 Scalar: '' @ ErrorString err))
           | Inr s \<Rightarrow> Inr s))"

definition ID_Scalar :: "party_ID \<Rightarrow> go_panic + scalar" where
  "ID_Scalar p = setScalar p"

text \<open>The bytes \<open>setScalar\<close> hands to \<open>SetCanonicalBytes\<close>.\<close>

definition ID_scalar_bytes :: "party_ID \<Rightarrow> byte list" where
  "ID_scalar_bytes p = (replicate 32 0)[0 := ucast p, 1 := ucast (drop_bit 8 p)]"

text \<open>
  Modelled from the spec: \<open>party.Set\<close>, whose source is not among the files. The spec
  gives an ordered, duplicate-free collection of identifiers with \<open>contains\<close>, \<open>size\<close> and
  an ordered \<open>range\<close>; it is the list of its identifiers here.
\<close>

type_synonym party_Set = "party_ID list"

definition Set_Contains :: "party_Set \<Rightarrow> party_ID \<Rightarrow> bool" where
  "Set_Contains s i \<longleftrightarrow> i \<in> set s"

definition Set_Range :: "party_Set \<Rightarrow> party_ID list" where
  "Set_Range s = s"

section \<open>Package state (and rounds/base\_round.go): the round's identity\<close>

record state_BaseRound =
  selfID :: party_ID
  partySet :: party_Set

definition state_NewBaseRound :: "party_ID \<Rightarrow> party_Set \<Rightarrow> go_error + state_BaseRound" where
  "state_NewBaseRound sid pset =
     (if \<not> Set_Contains pset sid then Inl (errors_New ''partySet should contain selfID'')
      else Inr \<lparr>selfID = sid, partySet = pset\<rparr>)"

definition SelfID :: "state_BaseRound \<Rightarrow> party_ID" where
  "SelfID r = selfID r"

definition Set_of :: "state_BaseRound \<Rightarrow> party_Set" where
  "Set_of r = partySet r"

section \<open>Package rounds (base.go): the round state machine\<close>

type_synonym RoundState = "8 word"

text \<open>The constants \<open>1 << iota\<close> of type \<open>uint8\<close>.\<close>

definition ProcessMessages_state :: RoundState where
  "ProcessMessages_state = push_bit 0 1"

definition ProcessRound_state :: RoundState where
  "ProcessRound_state = push_bit 1 1"

definition GenerateMessages_state :: RoundState where
  "GenerateMessages_state = push_bit 2 1"

definition NextRound_state :: RoundState where
  "NextRound_state = push_bit 3 1"

definition Finished_state :: RoundState where
  "Finished_state = push_bit 4 1"

definition Abort_state :: RoundState where
  "Abort_state = push_bit 5 1"

text \<open>
  The struct \<open>BaseRound\<close>. The channel \<open>done\<close> carries no value and is only ever closed,
  so it is the flag \<open>done_closed\<close>; the mutex is left out (one call runs at a time). The
  message queue is a value of a type \<open>'q\<close>: package messages is not among the files, and
  its operations \<open>NewMessageQueue\<close>, \<open>ReceivedAll\<close> and \<open>NextRound\<close> are parameters.
  \<open>roundNumber\<close> is a Go \<open>int\<close>, 64 bits wide.
\<close>

record 'q BaseRound =
  AllPartyIDs :: "uint32 list"
  OtherPartyIDs :: "uint32 \<rightharpoonup> bool"
  finalError :: "go_error option"
  messages :: 'q
  roundNumber :: "64 word"
  done_closed :: bool
  selfPartyID :: uint32
  state :: RoundState
  isProcessingStep :: bool

text \<open>
  The loop of \<open>NewBaseRound\<close> over \<open>allPartyIDs\<close>, carrying \<open>foundSelfIDInAll\<close>,
  \<open>finalAllPartyIDs\<close> and \<open>otherPartyIDs\<close>; a zero identifier returns the error at once.
\<close>

fun NewBaseRound_loop ::
  "uint32 \<Rightarrow> uint32 list \<Rightarrow> bool \<times> uint32 list \<times> (uint32 \<rightharpoonup> bool) \<Rightarrow>
   go_error + bool \<times> uint32 list \<times> (uint32 \<rightharpoonup> bool)" where
  "NewBaseRound_loop self [] acc = Inr acc"
| "NewBaseRound_loop self (i # ids) (foundSelf, finalAll, others) =
     (if i = 0 then Inl (errors_New ''IDs in allPartyIDs cannot be 0'')
      else if i = self \<and> \<not> foundSelf then
        NewBaseRound_loop self ids (True, finalAll @ [i], others)
      else if others i = None then
        NewBaseRound_loop self ids (foundSelf, finalAll @ [i], others(i \<mapsto> True))
      else NewBaseRound_loop self ids (foundSelf, finalAll, others))"

definition NewBaseRound ::
  "(uint32 \<Rightarrow> (uint32 \<rightharpoonup> bool) \<Rightarrow> 't list \<Rightarrow> go_error + 'q) \<Rightarrow>
   uint32 \<Rightarrow> uint32 list \<Rightarrow> 't list \<Rightarrow> go_error + 'q BaseRound" where
  "NewBaseRound NewMessageQueue self allPartyIDs acceptedTypes =
     (if self = 0 then Inl (errors_New ''selfPartyID cannot be 0'')
      else
        (case NewBaseRound_loop self allPartyIDs (False, [], Map.empty) of
           Inl err \<Rightarrow> Inl err
         | Inr (foundSelfIDInAll, finalAllPartyIDs, otherPartyIDs) \<Rightarrow>
             if \<not> foundSelfIDInAll then
               Inl (errors_New ''selfPartyID must be included in allPartyIDs'')
             else
               (case NewMessageQueue self otherPartyIDs acceptedTypes of
                  Inl err \<Rightarrow> Inl err
                | Inr queue \<Rightarrow>
                    Inr \<lparr>AllPartyIDs = finalAllPartyIDs,
                         OtherPartyIDs = otherPartyIDs,
                         finalError = None,
                         messages = queue,
                         roundNumber = 0,
                         done_closed = False,
                         selfPartyID = self,
                         state = ProcessRound_state,
                         isProcessingStep = False\<rparr>)))"

definition PrepareNextRound :: "'q BaseRound \<Rightarrow> bool \<times> 'q BaseRound" where
  "PrepareNextRound b =
     (if state b = NextRound_state then
        (True, b\<lparr>state := ProcessMessages_state, roundNumber := roundNumber b + 1\<rparr>)
      else (False, b))"

text \<open>
  \<open>fmt.Errorf\<close> with the two formats of \<open>Abort\<close>. \<open>%d\<close> prints the culprit in base 10,
  \<open>%v\<close> prints the message of the error recorded so far, \<open>%w\<close> prints the message of its
  operand and wraps it; a \<open>nil\<close> operand prints as \<open>%!w(<nil>)\<close> and wraps nothing.
\<close>

definition verb_w :: "go_error option \<Rightarrow> string" where
  "verb_w err = (case err of None \<Rightarrow> ''%!w(<nil>)'' | Some e \<Rightarrow> ErrorString e)"

definition Errorf_abort :: "uint32 \<Rightarrow> go_error option \<Rightarrow> go_error" where
  "Errorf_abort culprit err =
     GoError (''abort: party '' @ FormatUint (unat culprit) @ '': '' @ verb_w err) err"

definition Errorf_abort_more :: "go_error \<Rightarrow> uint32 \<Rightarrow> go_error option \<Rightarrow> go_error" where
  "Errorf_abort_more old culprit err =
     GoError (ErrorString old @ '', abort: party '' @ FormatUint (unat culprit) @ '': '' @ verb_w err)
       err"

text \<open>
  \<open>close(b.done)\<close>: closing a closed channel panics. The fields written before the panic
  stay written, so a call returns the panic (if any) together with the state.
\<close>

definition close_done :: "'q BaseRound \<Rightarrow> go_panic option \<times> 'q BaseRound" where
  "close_done b =
     (if done_closed b then (Some CloseOfClosedChannel, b)
      else (None, b\<lparr>done_closed := True\<rparr>))"

definition Abort :: "uint32 \<Rightarrow> go_error option \<Rightarrow> 'q BaseRound \<Rightarrow> go_panic option \<times> 'q BaseRound" where
  "Abort culprit err b =
     (let b1 = b\<lparr>state := Abort_state\<rparr> in
      case finalError b1 of
        None \<Rightarrow> close_done (b1\<lparr>finalError := Some (Errorf_abort culprit err)\<rparr>)
      | Some old \<Rightarrow> (None, b1\<lparr>finalError := Some (Errorf_abort_more old culprit err)\<rparr>))"

definition Finish :: "'q BaseRound \<Rightarrow> go_panic option \<times> 'q BaseRound" where
  "Finish b =
     (if state b = Abort_state \<or> state b = Finished_state then (None, b)
      else close_done (b\<lparr>state := Finished_state\<rparr>))"

text \<open>
  \<open>WaitForFinish\<close> receives from \<open>done\<close>: it returns \<open>finalError\<close> once the channel is
  closed and blocks (\<open>None\<close>) while it is open.
\<close>

definition WaitForFinish :: "'q BaseRound \<Rightarrow> go_error option option" where
  "WaitForFinish b = (if done_closed b then Some (finalError b) else None)"

definition CanProcessMessages :: "('q \<Rightarrow> bool) \<Rightarrow> 'q BaseRound \<Rightarrow> bool \<times> 'q BaseRound" where
  "CanProcessMessages ReceivedAll b =
     (if isProcessingStep b then (False, b)
      else if state b = ProcessMessages_state \<and> ReceivedAll (messages b) then
        (True, b\<lparr>isProcessingStep := True\<rparr>)
      else (False, b))"

definition CanProcessRound :: "'q BaseRound \<Rightarrow> bool \<times> 'q BaseRound" where
  "CanProcessRound b =
     (if isProcessingStep b then (False, b)
      else if state b = ProcessRound_state then (True, b\<lparr>isProcessingStep := True\<rparr>)
      else (False, b))"

definition CanGenerateMessages :: "'q BaseRound \<Rightarrow> bool \<times> 'q BaseRound" where
  "CanGenerateMessages b =
     (if isProcessingStep b then (False, b)
      else if state b = GenerateMessages_state then (True, b\<lparr>isProcessingStep := True\<rparr>)
      else (False, b))"

definition NextStep :: "('q \<Rightarrow> 'q) \<Rightarrow> 'q BaseRound \<Rightarrow> 'q BaseRound" where
  "NextStep Queue_NextRound b =
     (if state b = ProcessMessages_state then
        b\<lparr>isProcessingStep := False, state := push_bit 1 (state b),
          messages := Queue_NextRound (messages b)\<rparr>
      else if state b = ProcessRound_state \<or> state b = GenerateMessages_state then
        b\<lparr>isProcessingStep := False, state := push_bit 1 (state b)\<rparr>
      else b)"

text \<open>
  The calls a caller can make on a \<open>BaseRound\<close>, and a run of them in order. A call
  answers with the boolean it returns (if it returns one) and the panic it raises (if
  any); the run collects the answers.
\<close>

datatype call =
    Call_CanProcessMessages
  | Call_CanProcessRound
  | Call_CanGenerateMessages
  | Call_NextStep
  | Call_PrepareNextRound
  | Call_Finish
  | Call_Abort uint32 "go_error option"

fun call_step ::
  "('q \<Rightarrow> bool) \<Rightarrow> ('q \<Rightarrow> 'q) \<Rightarrow> call \<Rightarrow> 'q BaseRound \<Rightarrow>
   (bool option \<times> go_panic option) \<times> 'q BaseRound" where
  "call_step ra nr Call_CanProcessMessages b =
     (let (r, b') = CanProcessMessages ra b in ((Some r, None), b'))"
| "call_step ra nr Call_CanProcessRound b =
     (let (r, b') = CanProcessRound b in ((Some r, None), b'))"
| "call_step ra nr Call_CanGenerateMessages b =
     (let (r, b') = CanGenerateMessages b in ((Some r, None), b'))"
| "call_step ra nr Call_NextStep b = ((None, None), NextStep nr b)"
| "call_step ra nr Call_PrepareNextRound b =
     (let (r, b') = PrepareNextRound b in ((Some r, None), b'))"
| "call_step ra nr Call_Finish b = (let (p, b') = Finish b in ((None, p), b'))"
| "call_step ra nr (Call_Abort culprit err) b =
     (let (p, b') = Abort culprit err b in ((None, p), b'))"

fun call_run ::
  "('q \<Rightarrow> bool) \<Rightarrow> ('q \<Rightarrow> 'q) \<Rightarrow> call list \<Rightarrow> 'q BaseRound \<Rightarrow>
   (bool option \<times> go_panic option) list \<times> 'q BaseRound" where
  "call_run ra nr [] b = ([], b)"
| "call_run ra nr (c # cs) b =
     (let (r, b') = call_step ra nr c b; (rs, b'') = call_run ra nr cs b' in (r # rs, b''))"

section \<open>Package keygen: round 2\<close>

text \<open>
  Modelled from the spec: \<open>polynomial.Exponent\<close>, whose source is not among the files.
  A commitment polynomial is the list of its coefficient commitments, constant term
  first; \<open>Evaluate\<close> is Horner's rule in the exponent, \<open>Constant\<close> is the coefficient of
  index 0 (indexing an empty slice panics), and the sum of commitment polynomials is
  coefficient-wise.
\<close>

type_synonym 'p Exponent = "'p list"

fun Exponent_Evaluate :: "'p::ab_group_add Exponent \<Rightarrow> scalar \<Rightarrow> 'p" where
  "Exponent_Evaluate [] x = 0"
| "Exponent_Evaluate (A # As) x = A + ScalarMult x (Exponent_Evaluate As x)"

definition Exponent_Constant :: "'p Exponent \<Rightarrow> go_panic + 'p" where
  "Exponent_Constant cs = (case cs of [] \<Rightarrow> Inl IndexOutOfRange | A # _ \<Rightarrow> Inr A)"

fun Exponent_Add :: "'p::ab_group_add Exponent \<Rightarrow> 'p Exponent \<Rightarrow> 'p Exponent" where
  "Exponent_Add [] ys = ys"
| "Exponent_Add xs [] = xs"
| "Exponent_Add (x # xs) (y # ys) = (x + y) # Exponent_Add xs ys"

definition Exponent_Sum :: "'p::ab_group_add Exponent list \<Rightarrow> 'p Exponent" where
  "Exponent_Sum cs = foldr Exponent_Add cs []"

text \<open>
  Modelled from the spec: the message of KeyGen round 2 (\<open>senderID\<close>, \<open>share\<close>), the
  error \<open>state.NewError\<close> builds (the culprit and the cause), and the two outputs
  \<open>eddsa.NewPublic\<close> and \<open>eddsa.NewSecretShare\<close> build (\<open>PublicKey{shares, Y, t}\<close> and
  \<open>SecretShare{ownerID, value}\<close>). Their sources are not among the files. \<open>KeyGen2\<close> is a
  pointer in the message, \<open>None\<close> when it is \<open>nil\<close>.
\<close>

record messages_KeyGen2 =
  Share :: scalar

record messages_Message =
  From :: party_ID
  KeyGen2 :: "messages_KeyGen2 option"

record state_Error =
  culpritID :: party_ID
  cause :: go_error

definition state_NewError :: "party_ID \<Rightarrow> go_error \<Rightarrow> state_Error" where
  "state_NewError culprit err = \<lparr>culpritID = culprit, cause = err\<rparr>"

record 'p eddsa_Public =
  shares :: "party_ID \<rightharpoonup> 'p"
  threshold :: uint16
  groupKey :: 'p

definition eddsa_NewPublic :: "(party_ID \<rightharpoonup> 'p) \<Rightarrow> uint16 \<Rightarrow> 'p \<Rightarrow> 'p eddsa_Public" where
  "eddsa_NewPublic sh t k = \<lparr>shares = sh, threshold = t, groupKey = k\<rparr>"

record eddsa_SecretShare =
  ownerID :: party_ID
  secret_value :: scalar

definition eddsa_NewSecretShare :: "party_ID \<Rightarrow> scalar \<Rightarrow> eddsa_SecretShare" where
  "eddsa_NewSecretShare i s = \<lparr>ownerID = i, secret_value = s\<rparr>"

text \<open>
  The state of keygen's \<open>round2\<close>, with the fields the two functions use. The struct's
  declaration is not among the files; \<open>base\<close> is the embedded \<open>BaseRound\<close>, \<open>Public\<close> and
  \<open>SecretKey\<close> of \<open>Output\<close> are \<open>None\<close> until they are assigned.
\<close>

record 'p keygen_Output =
  Public :: "'p eddsa_Public option"
  SecretKey :: "eddsa_SecretShare option"

record 'p keygen_round2 =
  base :: state_BaseRound
  Commitments :: "party_ID \<rightharpoonup> 'p Exponent"
  CommitmentsSum :: "'p Exponent"
  Secret :: scalar
  Threshold :: uint16
  Output :: "'p keygen_Output"

text \<open>
  \<open>round2.ProcessMessage\<close>. It returns the error, the round and the message, which it
  mutates through its pointer. \<open>basepoint\<close> is the group's base point.
\<close>

definition ProcessMessage ::
  "'p::ab_group_add \<Rightarrow> 'p keygen_round2 \<Rightarrow> messages_Message \<Rightarrow>
   go_panic + state_Error option \<times> 'p keygen_round2 \<times> messages_Message" where
  "ProcessMessage basepoint round msg =
     (case KeyGen2 msg of
        None \<Rightarrow> Inl NilDereference
      | Some kg \<Rightarrow>
          (let computedShareExp = ScalarBaseMult basepoint (Share kg);
               i = From msg in
           case ID_Scalar (SelfID (base round)) of
             Inl pn \<Rightarrow> Inl pn
           | Inr x \<Rightarrow>
               (case Commitments round i of
                  None \<Rightarrow> Inl NilDereference
                | Some commitment \<Rightarrow>
                    (let shareExp = Exponent_Evaluate commitment x in
                     if computedShareExp \<noteq> shareExp then
                       Inr (Some (state_NewError i (errors_New ''VSS failed to validate'')),
                            round, msg)
                     else
                       Inr (None,
                            round\<lparr>Secret := Scalar_Add (Secret round) (Share kg)\<rparr>,
                            msg\<lparr>KeyGen2 := Some (kg\<lparr>Share := NewScalar\<rparr>)\<rparr>)))))"

text \<open>The loop of \<open>round2.GenerateMessages\<close> that fills the map \<open>shares\<close>.\<close>

fun GenerateMessages_shares ::
  "'p::ab_group_add Exponent \<Rightarrow> party_ID list \<Rightarrow> (party_ID \<rightharpoonup> 'p) \<Rightarrow>
   go_panic + (party_ID \<rightharpoonup> 'p)" where
  "GenerateMessages_shares cs [] sh = Inr sh"
| "GenerateMessages_shares cs (i # ids) sh =
     (case ID_Scalar i of
        Inl pn \<Rightarrow> Inl pn
      | Inr x \<Rightarrow> GenerateMessages_shares cs ids (sh(i \<mapsto> Exponent_Evaluate cs x)))"

definition GenerateMessages ::
  "'p::ab_group_add keygen_round2 \<Rightarrow>
   go_panic + messages_Message list \<times> state_Error option \<times> 'p keygen_round2" where
  "GenerateMessages round =
     (case GenerateMessages_shares (CommitmentsSum round) (Set_Range (Set_of (base round)))
             Map.empty of
        Inl pn \<Rightarrow> Inl pn
      | Inr sh \<Rightarrow>
          (case Exponent_Constant (CommitmentsSum round) of
             Inl pn \<Rightarrow> Inl pn
           | Inr k \<Rightarrow>
               Inr ([], None,
                    round\<lparr>Output := (Output round)
                      \<lparr>Public := Some (eddsa_NewPublic sh (Threshold round) k),
                       SecretKey :=
                         Some (eddsa_NewSecretShare (SelfID (base round)) (Secret round))\<rparr>\<rparr>)))"

section \<open>Package sign: round 1\<close>

text \<open>
  The sources hold two versions of sign's \<open>round1\<close>: one with the separate steps
  \<open>ProcessMessages\<close>, \<open>ProcessRound\<close> and \<open>GenerateMessages\<close> (flags \<open>roundProcessed\<close> and
  \<open>messagesProcessed\<close>), and \<open>round1.go\<close>, whose \<open>ProcessRound\<close> does all three (flag
  \<open>readyForNextRound\<close>, mailbox \<open>msgs1\<close>). The declaration of the embedded struct \<open>base\<close>
  and of the per-party struct is in neither; the records below hold the fields the two
  versions use. Identifiers are \<open>uint32\<close> in this package. \<open>Parties\<close> maps an identifier
  to its party's struct; \<open>sign_Secret\<close> is a pointer, \<open>None\<close> when it is \<open>nil\<close>.
\<close>

record 'p signer =
  Lagrange :: scalar
  Di :: 'p
  Ei :: 'p
  Pi :: scalar
  Ri :: 'p
  Zi :: scalar

record 'p messages_Sign1 =
  Sign1_Di :: 'p
  Sign1_Ei :: 'p

record messages_Sign2 =
  Sign2_From :: uint32
  Sign2_Zi :: scalar

datatype frost_error = ErrRoundProcessed | ErrRoundNotProcessed

record 'p sign_base =
  AllParties :: "uint32 list"
  PartySelf :: uint32
  Parties :: "uint32 \<rightharpoonup> 'p signer"
  Message :: "byte list"
  round_R :: 'p
  round_Y :: 'p
  round_C :: scalar
  sign_Secret :: "scalar option"
  round_d :: scalar
  round_e :: scalar
  roundProcessed :: bool
  messagesProcessed :: bool
  readyForNextRound :: bool
  msgs1 :: "uint32 \<rightharpoonup> 'p messages_Sign1"

text \<open>
  Modelled from the spec: \<open>eddsa.ComputeChallenge\<close>, whose source is not among the
  files: \<open>c = SetUniformBytes(SHA-512(R_compressed || Y_compressed || M))\<close>. \<open>sha512\<close> is
  the hash and \<open>enc\<close> the 32-byte encoding of a point. Modelled from the spec as well:
  \<open>messages.NewSign2\<close>, the message \<open>Sign2{selfID, z_self}\<close>.
\<close>

definition ComputeChallenge ::
  "(byte list \<Rightarrow> byte list) \<Rightarrow> ('p \<Rightarrow> byte list) \<Rightarrow> byte list \<Rightarrow> 'p \<Rightarrow> 'p \<Rightarrow>
   go_panic + scalar" where
  "ComputeChallenge sha512 enc msg pk r = SetUniformBytes (sha512 (enc r @ enc pk @ msg))"

definition messages_NewSign2 :: "uint32 \<Rightarrow> scalar \<Rightarrow> messages_Sign2" where
  "messages_NewSign2 i z = \<lparr>Sign2_From = i, Sign2_Zi = z\<rparr>"

text \<open>
  The first loop of \<open>ProcessRound\<close>, over the slice \<open>AllParties\<close>: it appends
  \<open>ID || Di || Ei\<close> to the buffer for each identifier. An identifier that is not a key of
  \<open>Parties\<close> yields a \<open>nil\<close> party, and reading its \<open>Di\<close> panics.
\<close>

fun ProcessRound_buffer ::
  "('p \<Rightarrow> byte list) \<Rightarrow> (uint32 \<rightharpoonup> 'p signer) \<Rightarrow> uint32 list \<Rightarrow> byte list \<Rightarrow>
   go_panic + byte list" where
  "ProcessRound_buffer enc ps [] buffer = Inr buffer"
| "ProcessRound_buffer enc ps (i # ids) buffer =
     (case ps i of
        None \<Rightarrow> Inl NilDereference
      | Some party \<Rightarrow>
          ProcessRound_buffer enc ps ids
            (buffer @ BigEndian_PutUint32 i @ enc (Di party) @ enc (Ei party)))"

text \<open>
  The second loop, \<open>for id, party := range round.Parties\<close>. Go leaves the order in which a
  map is ranged over open, so the loop takes it as the list \<open>order\<close> of the map's keys
  (each key once); an identifier of the list that is not a key is passed over. The loop
  carries the map and the sum \<open>round.R\<close>.
\<close>

fun ProcessRound_parties ::
  "(byte list \<Rightarrow> byte list) \<Rightarrow> byte list \<Rightarrow> byte list \<Rightarrow> uint32 list \<Rightarrow>
   (uint32 \<rightharpoonup> 'p::ab_group_add signer) \<times> 'p \<Rightarrow>
   go_panic + (uint32 \<rightharpoonup> 'p signer) \<times> 'p" where
  "ProcessRound_parties sha512 msg B [] (ps, r) = Inr (ps, r)"
| "ProcessRound_parties sha512 msg B (i # ids) (ps, r) =
     (case ps i of
        None \<Rightarrow> ProcessRound_parties sha512 msg B ids (ps, r)
      | Some party \<Rightarrow>
          (case SetUniformBytes
                  (sha512 (string_bytes ''FROST-SHA512'' @ BigEndian_PutUint32 i @ msg @ B)) of
             Inl pn \<Rightarrow> Inl pn
           | Inr rho \<Rightarrow>
               (let party1 = party\<lparr>Pi := rho\<rparr>;
                    party2 = party1\<lparr>Ri := ScalarMult (Pi party1) (Ei party1)\<rparr>;
                    party3 = party2\<lparr>Ri := Ri party2 + Di party2\<rparr>
                in ProcessRound_parties sha512 msg B ids (ps(i \<mapsto> party3), r + Ri party3))))"

text \<open>The four scalar operations that compute \<open>z\<close>.\<close>

definition ProcessRound_z ::
  "scalar \<Rightarrow> scalar \<Rightarrow> scalar \<Rightarrow> scalar \<Rightarrow> scalar \<Rightarrow> scalar \<Rightarrow> scalar" where
  "ProcessRound_z lagrange secret c nonce_e rho nonce_d =
     (let z1 = Scalar_Multiply lagrange secret;
          z2 = Scalar_Multiply z1 c;
          z3 = Scalar_MultiplyAdd nonce_e rho z2
      in Scalar_Add z3 nonce_d)"

text \<open>\<open>round1.ProcessRound\<close> of the version with separate steps.\<close>

definition ProcessRound ::
  "(byte list \<Rightarrow> byte list) \<Rightarrow> ('p \<Rightarrow> byte list) \<Rightarrow> uint32 list \<Rightarrow>
   'p::ab_group_add sign_base \<Rightarrow> go_panic + frost_error option \<times> 'p sign_base" where
  "ProcessRound sha512 enc order round =
     (if roundProcessed round then Inr (Some ErrRoundProcessed, round)
      else
        (case ProcessRound_buffer enc (Parties round) (AllParties round) [] of
           Inl pn \<Rightarrow> Inl pn
         | Inr B \<Rightarrow>
             (case ProcessRound_parties sha512 (Message round) B order (Parties round, 0) of
                Inl pn \<Rightarrow> Inl pn
              | Inr (ps, r) \<Rightarrow>
                  (case ComputeChallenge sha512 enc (Message round) (round_Y round) r of
                     Inl pn \<Rightarrow> Inl pn
                   | Inr c \<Rightarrow>
                       (case ps (PartySelf round) of
                          None \<Rightarrow> Inl NilDereference
                        | Some selfParty \<Rightarrow>
                            (case sign_Secret round of
                               None \<Rightarrow> Inl NilDereference
                             | Some secret \<Rightarrow>
                                 (let z = ProcessRound_z (Lagrange selfParty) secret c
                                            (round_e round) (Pi selfParty) (round_d round)
                                  in Inr (None,
                                       round\<lparr>Parties := ps(PartySelf round \<mapsto> selfParty\<lparr>Zi := z\<rparr>),
                                             round_R := r,
                                             round_C := c,
                                             roundProcessed := True\<rparr>))))))))"

text \<open>
  \<open>round1.go\<close>: \<open>CanProcess\<close>, with its loop over the map \<open>Parties\<close> in the order given.
  \<open>len\<close> is a Go \<open>int\<close>, so \<open>len(round.AllParties)-1\<close> can be \<open>-1\<close>.
\<close>

fun CanProcess_loop :: "uint32 list \<Rightarrow> 'p sign_base \<Rightarrow> bool" where
  "CanProcess_loop [] round = True"
| "CanProcess_loop (i # ids) round =
     (if Parties round i = None then CanProcess_loop ids round
      else if i = PartySelf round then CanProcess_loop ids round
      else if msgs1 round i = None then False
      else CanProcess_loop ids round)"

definition CanProcess :: "uint32 list \<Rightarrow> 'p sign_base \<Rightarrow> bool" where
  "CanProcess order round =
     (if readyForNextRound round then False
      else if int (card (dom (msgs1 round))) = int (length (AllParties round)) - 1 then
        CanProcess_loop order round
      else True)"

text \<open>
  \<open>round1.go\<close>: \<open>ProcessMessages\<close>, again a loop over the map \<open>Parties\<close>. A peer without
  a message in \<open>msgs1\<close> yields a \<open>nil\<close> message, and reading its \<open>Di\<close> panics.
\<close>

fun ProcessMessages :: "uint32 list \<Rightarrow> 'p sign_base \<Rightarrow> go_panic + 'p sign_base" where
  "ProcessMessages [] round = Inr round"
| "ProcessMessages (i # ids) round =
     (case Parties round i of
        None \<Rightarrow> ProcessMessages ids round
      | Some party \<Rightarrow>
          if i \<noteq> PartySelf round then
            (case msgs1 round i of
               None \<Rightarrow> Inl NilDereference
             | Some m \<Rightarrow>
                 ProcessMessages ids
                   (round\<lparr>Parties := (Parties round)(i \<mapsto> party\<lparr>Di := Sign1_Di m, Ei := Sign1_Ei m\<rparr>),
                          msgs1 := (msgs1 round)(i := None)\<rparr>))
          else ProcessMessages ids round)"

text \<open>
  \<open>round1.go\<close>: \<open>ProcessRound\<close>, which returns the messages to send and the error. The
  two loops over the map take one order each.
\<close>

definition ProcessRound_combined ::
  "(byte list \<Rightarrow> byte list) \<Rightarrow> ('p \<Rightarrow> byte list) \<Rightarrow> uint32 list \<Rightarrow> uint32 list \<Rightarrow>
   'p::ab_group_add sign_base \<Rightarrow>
   go_panic + messages_Sign2 list \<times> frost_error option \<times> 'p sign_base" where
  "ProcessRound_combined sha512 enc order1 order2 round0 =
     (if readyForNextRound round0 then Inr ([], Some ErrRoundProcessed, round0)
      else
        (case ProcessMessages order1 round0 of
           Inl pn \<Rightarrow> Inl pn
         | Inr round \<Rightarrow>
        (case ProcessRound_buffer enc (Parties round) (AllParties round) [] of
           Inl pn \<Rightarrow> Inl pn
         | Inr B \<Rightarrow>
             (case ProcessRound_parties sha512 (Message round) B order2 (Parties round, 0) of
                Inl pn \<Rightarrow> Inl pn
              | Inr (ps, r) \<Rightarrow>
                  (case ComputeChallenge sha512 enc (Message round) (round_Y round) r of
                     Inl pn \<Rightarrow> Inl pn
                   | Inr c \<Rightarrow>
                       (case ps (PartySelf round) of
                          None \<Rightarrow> Inl NilDereference
                        | Some selfParty \<Rightarrow>
                            (case sign_Secret round of
                               None \<Rightarrow> Inl NilDereference
                             | Some secret \<Rightarrow>
                                 (let z = ProcessRound_z (Lagrange selfParty) secret c
                                            (round_e round) (Pi selfParty) (round_d round)
                                  in Inr ([messages_NewSign2 (PartySelf round) z], None,
                                       round\<lparr>Parties := ps(PartySelf round \<mapsto> selfParty\<lparr>Zi := z\<rparr>),
                                             round_R := r,
                                             round_C := c,
                                             readyForNextRound := True\<rparr>)))))))))"

section \<open>Auxiliary notions for the statements\<close>

text \<open>Whether a call is a call of \<open>Abort\<close>.\<close>

fun is_Abort_call :: "call \<Rightarrow> bool" where
  "is_Abort_call (Call_Abort culprit err) = True"
| "is_Abort_call c = False"

text \<open>
  The rounds on which \<open>Abort\<close> was never called: no error is recorded, the state is not
  \<open>Abort\<close>, and \<open>done\<close> is closed exactly in the state \<open>Finished\<close>.
\<close>

definition no_abort_inv :: "'q BaseRound \<Rightarrow> bool" where
  "no_abort_inv b \<longleftrightarrow>
     finalError b = None \<and> state b \<noteq> Abort_state \<and> (done_closed b \<longleftrightarrow> state b = Finished_state)"

text \<open>
  A round of three parties as \<open>NewBaseRound\<close> builds it (with a queue of no content), the
  same round after \<open>Abort(3, errors.New("VSS failed to validate"))\<close>, and after a further
  \<open>Abort(5, nil)\<close>.
\<close>

definition example_round :: "unit BaseRound" where
  "example_round = \<lparr>AllPartyIDs = [1, 2, 3], OtherPartyIDs = [2 \<mapsto> True, 3 \<mapsto> True],
     finalError = None, messages = (), roundNumber = 0, done_closed = False, selfPartyID = 1,
     state = ProcessRound_state, isProcessingStep = False\<rparr>"

definition example_aborted :: "unit BaseRound" where
  "example_aborted = \<lparr>AllPartyIDs = [1, 2, 3], OtherPartyIDs = [2 \<mapsto> True, 3 \<mapsto> True],
     finalError = Some (GoError ''abort: party 3: VSS failed to validate''
                          (Some (GoError ''VSS failed to validate'' None))),
     messages = (), roundNumber = 0, done_closed = True, selfPartyID = 1,
     state = Abort_state, isProcessingStep = False\<rparr>"

definition example_aborted_twice :: "unit BaseRound" where
  "example_aborted_twice = \<lparr>AllPartyIDs = [1, 2, 3], OtherPartyIDs = [2 \<mapsto> True, 3 \<mapsto> True],
     finalError = Some (GoError
       ''abort: party 3: VSS failed to validate, abort: party 5: %!w(<nil>)'' None),
     messages = (), roundNumber = 0, done_closed = True, selfPartyID = 1,
     state = Abort_state, isProcessingStep = False\<rparr>"

text \<open>The map \<open>otherPartyIDs\<close> that \<open>NewBaseRound\<close> hands to \<open>NewMessageQueue\<close>.\<close>

definition NewBaseRound_others :: "uint32 \<Rightarrow> uint32 list \<Rightarrow> (uint32 \<rightharpoonup> bool)" where
  "NewBaseRound_others self ids =
     (case NewBaseRound_loop self ids (False, [], Map.empty) of
        Inl err \<Rightarrow> Map.empty
      | Inr (foundSelf, finalAll, others) \<Rightarrow> others)"

text \<open>
  A keygen round of party 2 among the parties 1, 2, 3, with points taken in the group
  of the integers (base point 1), and a KeyGen2 message of party 1 with a given share.
\<close>

definition example_keygen :: "int keygen_round2" where
  "example_keygen =
     \<lparr>base = \<lparr>selfID = 2, partySet = [1, 2, 3]\<rparr>,
      Commitments = [1 \<mapsto> [5, 3], 2 \<mapsto> [7, 1], 3 \<mapsto> [2, 2]],
      CommitmentsSum = [14, 6],
      Secret = 40,
      Threshold = 1,
      Output = \<lparr>Public = None, SecretKey = None\<rparr>\<rparr>"

definition example_share :: "scalar \<Rightarrow> messages_Message" where
  "example_share s = \<lparr>From = 1, KeyGen2 = Some \<lparr>Share = s\<rparr>\<rparr>"

text \<open>
  For the statements about sign round 1. \<open>binding_factor\<close> is the scalar the spec calls
  \<open>rho_i\<close>, \<open>bound_party\<close> is a party's struct with \<open>Pi = rho_i\<close> and \<open>Ri = Di + [rho_i]Ei\<close>,
  and \<open>transcript\<close> is the spec's \<open>B\<close>: the concatenation over a list of identifiers of
  \<open>ID (4 bytes, big-endian) || Di || Ei\<close>.
\<close>

definition binding_factor :: "(byte list \<Rightarrow> byte list) \<Rightarrow> byte list \<Rightarrow> byte list \<Rightarrow> uint32 \<Rightarrow> scalar" where
  "binding_factor sha512 msg B i =
     le_nat (sha512 (string_bytes ''FROST-SHA512'' @ BigEndian_PutUint32 i @ msg @ B)) mod group_order"

definition bound_party ::
  "(byte list \<Rightarrow> byte list) \<Rightarrow> byte list \<Rightarrow> byte list \<Rightarrow> uint32 \<Rightarrow>
   'p::ab_group_add signer \<Rightarrow> 'p signer" where
  "bound_party sha512 msg B i party =
     party\<lparr>Pi := binding_factor sha512 msg B i,
           Ri := Di party + ScalarMult (binding_factor sha512 msg B i) (Ei party)\<rparr>"

definition transcript :: "('p \<Rightarrow> byte list) \<Rightarrow> (uint32 \<rightharpoonup> 'p signer) \<Rightarrow> uint32 list \<Rightarrow> byte list" where
  "transcript enc ps ids =
     concat (map (\<lambda>i. case ps i of
                          None \<Rightarrow> []
                        | Some party \<Rightarrow> BigEndian_PutUint32 i @ enc (Di party) @ enc (Ei party)) ids)"

text \<open>
  What the spec says round 1 computes: \<open>round\<close> is the round with the peers' \<open>Di\<close> and \<open>Ei\<close>
  on record, \<open>round'\<close> the round after \<open>ProcessRound\<close>, \<open>secret\<close> the local secret share.
\<close>

definition round1_computed ::
  "(byte list \<Rightarrow> byte list) \<Rightarrow> ('p::ab_group_add \<Rightarrow> byte list) \<Rightarrow> scalar \<Rightarrow>
   'p sign_base \<Rightarrow> 'p sign_base \<Rightarrow> bool" where
  "round1_computed sha512 enc secret round round' \<longleftrightarrow>
     (\<forall>i party. Parties round i = Some party \<longrightarrow>
        (\<exists>party'. Parties round' i = Some party' \<and>
           SetUniformBytes
             (sha512 (string_bytes ''FROST-SHA512'' @ BigEndian_PutUint32 i @ Message round @
                      transcript enc (Parties round) (AllParties round))) = Inr (Pi party') \<and>
           Ri party' = Di party + ScalarMult (Pi party') (Ei party) \<and>
           Di party' = Di party \<and> Ei party' = Ei party \<and> Lagrange party' = Lagrange party)) \<and>
     dom (Parties round') = dom (Parties round) \<and>
     round_R round' = (\<Sum>i\<in>dom (Parties round'). Ri (the (Parties round' i))) \<and>
     ComputeChallenge sha512 enc (Message round) (round_Y round) (round_R round') =
       Inr (round_C round') \<and>
     (\<exists>self'. Parties round' (PartySelf round) = Some self' \<and>
        Zi self' = (round_d round + Pi self' * round_e round +
                    Lagrange self' * secret * round_C round') mod group_order)"

text \<open>
  Examples for sign round 1. Points are taken in the group of the integers, \<open>demo_hash\<close>
  stands in for SHA-512 (a 64-byte digest that depends on the content and the length of
  its input) and \<open>demo_enc\<close> for the 32-byte encoding of a point. \<open>example_sign\<close> is the
  round of party 1 with signers 1 and 2 after the message of party 2 is recorded,
  \<open>example_signed\<close> the same round after \<open>ProcessRound\<close>, and \<open>example_sign_waiting\<close> the
  round in \<open>round1.go\<close> with the message of party 2 still in the mailbox.
\<close>

definition demo_hash :: "byte list \<Rightarrow> byte list" where
  "demo_hash x = (sum_list x + of_nat (length x)) # replicate 63 0"

definition demo_enc :: "int \<Rightarrow> byte list" where
  "demo_enc p = of_int p # replicate 31 0"

definition example_sign :: "int sign_base" where
  "example_sign =
     \<lparr>AllParties = [1, 2], PartySelf = 1,
      Parties = [1 \<mapsto> \<lparr>Lagrange = 2, Di = 10, Ei = 20, Pi = 0, Ri = 0, Zi = 0\<rparr>,
                 2 \<mapsto> \<lparr>Lagrange = 3, Di = 30, Ei = 40, Pi = 0, Ri = 0, Zi = 0\<rparr>],
      Message = [7], round_R = 0, round_Y = 99, round_C = 0, sign_Secret = Some 11,
      round_d = 5, round_e = 6, roundProcessed = False, messagesProcessed = True,
      readyForNextRound = False, msgs1 = Map.empty\<rparr>"

definition example_signed :: "int sign_base" where
  "example_signed =
     \<lparr>AllParties = [1, 2], PartySelf = 1,
      Parties = [2 \<mapsto> \<lparr>Lagrange = 3, Di = 30, Ei = 40, Pi = 56, Ri = 2270, Zi = 0\<rparr>,
                 1 \<mapsto> \<lparr>Lagrange = 2, Di = 10, Ei = 20, Pi = 55, Ri = 1110, Zi = 5241\<rparr>],
      Message = [7], round_R = 3380, round_Y = 99, round_C = 223, sign_Secret = Some 11,
      round_d = 5, round_e = 6, roundProcessed = True, messagesProcessed = True,
      readyForNextRound = False, msgs1 = Map.empty\<rparr>"

definition example_sign_waiting :: "int sign_base" where
  "example_sign_waiting =
     \<lparr>AllParties = [1, 2], PartySelf = 1,
      Parties = [1 \<mapsto> \<lparr>Lagrange = 2, Di = 10, Ei = 20, Pi = 0, Ri = 0, Zi = 0\<rparr>,
                 2 \<mapsto> \<lparr>Lagrange = 3, Di = 0, Ei = 0, Pi = 0, Ri = 0, Zi = 0\<rparr>],
      Message = [7], round_R = 0, round_Y = 99, round_C = 0, sign_Secret = Some 11,
      round_d = 5, round_e = 6, roundProcessed = False, messagesProcessed = True,
      readyForNextRound = False, msgs1 = [2 \<mapsto> \<lparr>Sign1_Di = 30, Sign1_Ei = 40\<rparr>]\<rparr>"

text \<open>
  Two rounds agree on the transcript values: the same parties, the same \<open>Pi\<close> and \<open>Ri\<close>
  for every party, the same \<open>R\<close> and the same \<open>c\<close>.
\<close>

definition round1_agree :: "'p sign_base \<Rightarrow> 'p sign_base \<Rightarrow> bool" where
  "round1_agree a b \<longleftrightarrow>
     dom (Parties a) = dom (Parties b) \<and>
     (\<forall>i pa pb. Parties a i = Some pa \<and> Parties b i = Some pb \<longrightarrow> Pi pa = Pi pb \<and> Ri pa = Ri pb) \<and>
     round_R a = round_R b \<and> round_C a = round_C b"

text \<open>
  The same signing session seen by party 2 (its own secret and nonces), before and after
  \<open>ProcessRound\<close>; and the round of party 1 in \<open>round1.go\<close> with an empty mailbox.
\<close>

definition example_sign_peer :: "int sign_base" where
  "example_sign_peer =
     \<lparr>AllParties = [1, 2], PartySelf = 2,
      Parties = [1 \<mapsto> \<lparr>Lagrange = 2, Di = 10, Ei = 20, Pi = 0, Ri = 0, Zi = 0\<rparr>,
                 2 \<mapsto> \<lparr>Lagrange = 3, Di = 30, Ei = 40, Pi = 0, Ri = 0, Zi = 0\<rparr>],
      Message = [7], round_R = 0, round_Y = 99, round_C = 0, sign_Secret = Some 13,
      round_d = 8, round_e = 9, roundProcessed = False, messagesProcessed = True,
      readyForNextRound = False, msgs1 = Map.empty\<rparr>"

definition example_signed_peer :: "int sign_base" where
  "example_signed_peer =
     \<lparr>AllParties = [1, 2], PartySelf = 2,
      Parties = [1 \<mapsto> \<lparr>Lagrange = 2, Di = 10, Ei = 20, Pi = 55, Ri = 1110, Zi = 0\<rparr>,
                 2 \<mapsto> \<lparr>Lagrange = 3, Di = 30, Ei = 40, Pi = 56, Ri = 2270, Zi = 9209\<rparr>],
      Message = [7], round_R = 3380, round_Y = 99, round_C = 223, sign_Secret = Some 13,
      round_d = 8, round_e = 9, roundProcessed = True, messagesProcessed = True,
      readyForNextRound = False, msgs1 = Map.empty\<rparr>"

definition example_sign_no_messages :: "int sign_base" where
  "example_sign_no_messages =
     \<lparr>AllParties = [1, 2], PartySelf = 1,
      Parties = [1 \<mapsto> \<lparr>Lagrange = 2, Di = 10, Ei = 20, Pi = 0, Ri = 0, Zi = 0\<rparr>,
                 2 \<mapsto> \<lparr>Lagrange = 3, Di = 0, Ei = 0, Pi = 0, Ri = 0, Zi = 0\<rparr>],
      Message = [7], round_R = 0, round_Y = 99, round_C = 0, sign_Secret = Some 11,
      round_d = 5, round_e = 6, roundProcessed = False, messagesProcessed = True,
      readyForNextRound = False, msgs1 = Map.empty\<rparr>"

text \<open>The round of party 2 in \<open>round1.go\<close> with the message of party 1 in the mailbox.\<close>

definition example_sign_peer_waiting :: "int sign_base" where
  "example_sign_peer_waiting =
     \<lparr>AllParties = [1, 2], PartySelf = 2,
      Parties = [1 \<mapsto> \<lparr>Lagrange = 2, Di = 0, Ei = 0, Pi = 0, Ri = 0, Zi = 0\<rparr>,
                 2 \<mapsto> \<lparr>Lagrange = 3, Di = 30, Ei = 40, Pi = 0, Ri = 0, Zi = 0\<rparr>],
      Message = [7], round_R = 0, round_Y = 99, round_C = 0, sign_Secret = Some 13,
      round_d = 8, round_e = 9, roundProcessed = False, messagesProcessed = True,
      readyForNextRound = False, msgs1 = [1 \<mapsto> \<lparr>Sign1_Di = 10, Sign1_Ei = 20\<rparr>]\<rparr>"

section \<open>Properties: party identifiers\<close>

lemma le_nat_replicate_zero: "le_nat (replicate n 0) = 0"
  by (induction n) auto

lemma unat_uint16_less: "unat (p :: 16 word) < 65536"
  using unsigned_less [of p, where 'a = nat] by simp

lemma unat_split16:
  "unat (ucast (p::16 word) :: byte) + 256 * unat (ucast (drop_bit 8 p) :: byte) = unat p"
proof -
  have a: "unat (ucast p :: byte) = unat p mod 256"
    by (simp add: unsigned_ucast_eq take_bit_eq_mod)
  have "unat (drop_bit 8 p) = unat p div 256"
    unfolding unat_drop_bit_eq by (simp add: drop_bit_eq_div)
  moreover have "unat p div 256 < 256" using unat_uint16_less [of p] by simp
  ultimately have b: "unat (ucast (drop_bit 8 p) :: byte) = unat p div 256"
    by (simp only: unsigned_ucast_eq take_bit_eq_mod) simp
  show ?thesis unfolding a b by simp
qed

lemma ID_scalar_bytes_eq:
  "ID_scalar_bytes p = ucast p # ucast (drop_bit 8 p) # replicate 30 0"
  by (simp add: ID_scalar_bytes_def numeral_eq_Suc)

lemma le_nat_ID_scalar_bytes: "le_nat (ID_scalar_bytes p) = unat p"
  unfolding ID_scalar_bytes_eq le_nat.simps le_nat_replicate_zero
  using unat_split16 [of p] by simp

lemma length_ID_scalar_bytes: "length (ID_scalar_bytes p) = 32"
  by (simp add: ID_scalar_bytes_def)

lemma unat_ID_less_order: "unat (p :: 16 word) < group_order"
proof -
  have "(65536::nat) < group_order" by (simp add: group_order_def)
  with unat_uint16_less [of p] show ?thesis by linarith
qed

lemma PutUint16_scalar_buffer:
  "LittleEndian_PutUint16 (replicate 32 0) p = Inr (ID_scalar_bytes p)"
  by (simp add: LittleEndian_PutUint16_def ID_scalar_bytes_def)

lemma SetCanonicalBytes_ID: "SetCanonicalBytes (ID_scalar_bytes p) = Inr (unat p)"
  by (simp add: SetCanonicalBytes_def le_nat_ID_scalar_bytes length_ID_scalar_bytes
      unat_ID_less_order)

lemma setScalar_eq: "setScalar p = Inr (unat p)"
  by (simp add: setScalar_def PutUint16_scalar_buffer SetCanonicalBytes_ID)

lemma ID_Scalar_eq: "ID_Scalar p = Inr (unat p)"
  by (simp add: ID_Scalar_def setScalar_eq)

text \<open>
  Claim C10. For every identifier \<open>p\<close> (16 bits), the 32 bytes that \<open>setScalar\<close> builds, \<open>p\<close>
  in little-endian order padded with zeros, encode the number \<open>unat p\<close>, which lies below
  the group order. So \<open>SetCanonicalBytes\<close> accepts them, the panic of \<open>setScalar\<close> is not
  reached, and \<open>ID.Scalar\<close> returns the scalar \<open>unat p\<close> for every identifier.
\<close>

theorem ID_Scalar_total:
  "LittleEndian_PutUint16 (replicate 32 0) p = Inr (ID_scalar_bytes p) \<and>
   length (ID_scalar_bytes p) = 32 \<and> le_nat (ID_scalar_bytes p) = unat p \<and>
   le_nat (ID_scalar_bytes p) < group_order \<and>
   SetCanonicalBytes (ID_scalar_bytes p) = Inr (unat p) \<and>
   setScalar p = Inr (unat p) \<and> ID_Scalar p = Inr (unat p)"
  by (simp add: ID_Scalar_eq setScalar_eq SetCanonicalBytes_ID le_nat_ID_scalar_bytes
      length_ID_scalar_bytes unat_ID_less_order PutUint16_scalar_buffer)

theorem ID_Scalar_total_witness:
  "ID_Scalar 65535 = Inr 65535 \<and> ID_scalar_bytes 65535 = 255 # 255 # replicate 30 0"
  using ID_Scalar_total [of 65535] by (simp add: ID_scalar_bytes_eq)

section \<open>Properties: the round state machine\<close>

lemmas RoundState_defs =
  ProcessMessages_state_def ProcessRound_state_def GenerateMessages_state_def
  NextRound_state_def Finished_state_def Abort_state_def

lemma Abort_state_distinct:
  "Abort_state \<noteq> ProcessMessages_state" "Abort_state \<noteq> ProcessRound_state"
  "Abort_state \<noteq> GenerateMessages_state" "Abort_state \<noteq> NextRound_state"
  "Abort_state \<noteq> Finished_state"
  by (simp_all add: RoundState_defs)

lemma state_Abort: "state (snd (Abort culprit err b)) = Abort_state"
  by (simp add: Abort_def close_done_def Let_def split: option.splits)

lemma done_Abort: "done_closed (snd (Abort culprit err b)) \<or> finalError b \<noteq> None"
  by (auto simp add: Abort_def close_done_def Let_def split: option.splits)

lemma aborted_calls:
  assumes "state b = Abort_state"
  shows "CanProcessMessages ra b = (False, b)" "CanProcessRound b = (False, b)"
    "CanGenerateMessages b = (False, b)" "NextStep nr b = b" "Finish b = (None, b)"
    "PrepareNextRound b = (False, b)"
  using assms Abort_state_distinct
  by (simp_all add: CanProcessMessages_def CanProcessRound_def CanGenerateMessages_def
      NextStep_def Finish_def PrepareNextRound_def)

lemma aborted_step:
  assumes "state b = Abort_state" and "call_step ra nr c b = (r, b')"
  shows "state b' = Abort_state \<and> fst r \<noteq> Some True"
proof (cases c)
  case (Call_Abort culprit err)
  with assms(2) have "b' = snd (Abort culprit err b)" "fst r = None"
    by (auto split: prod.splits)
  then show ?thesis by (simp add: state_Abort)
qed (use assms in \<open>auto simp: aborted_calls\<close>)

lemma aborted_run:
  assumes "state b = Abort_state" and "call_run ra nr cs b = (rs, b')"
  shows "state b' = Abort_state \<and> (\<forall>r \<in> set rs. fst r \<noteq> Some True)"
  using assms
proof (induction cs arbitrary: b rs b')
  case Nil
  then show ?case by simp
next
  case (Cons c cs)
  obtain r b1 where s: "call_step ra nr c b = (r, b1)" by (cases "call_step ra nr c b")
  obtain rs1 b2 where t: "call_run ra nr cs b1 = (rs1, b2)" by (cases "call_run ra nr cs b1")
  from Cons.prems(2) s t have eq: "rs = r # rs1" "b' = b2" by simp_all
  from aborted_step [OF Cons.prems(1) s] have a: "state b1 = Abort_state" "fst r \<noteq> Some True"
    by simp_all
  from Cons.IH [OF a(1) t] show ?case using eq a(2) by simp
qed

text \<open>
  Claim C5. Abort is sticky. Let \<open>b1\<close> be the round after a call of \<open>Abort\<close>, and \<open>b2\<close> the
  round after any further calls \<open>cs\<close> of \<open>CanProcessMessages\<close>, \<open>CanProcessRound\<close>,
  \<open>CanGenerateMessages\<close>, \<open>NextStep\<close>, \<open>PrepareNextRound\<close>, \<open>Finish\<close> and \<open>Abort\<close>. Then the
  state is \<open>Abort\<close> in \<open>b1\<close> and in \<open>b2\<close>, none of the calls returned true, and in \<open>b2\<close> the
  three predicates return false, \<open>NextStep\<close> and \<open>Finish\<close> leave the round as it is, so the
  state does not become \<open>Finished\<close>.
\<close>

theorem Abort_sticky:
  assumes "b1 = snd (Abort culprit err b)" and "call_run ra nr cs b1 = (rs, b2)"
  shows "state b1 = Abort_state \<and> state b2 = Abort_state \<and>
         (\<forall>r \<in> set rs. fst r \<noteq> Some True) \<and>
         CanProcessMessages ra b2 = (False, b2) \<and> CanProcessRound b2 = (False, b2) \<and>
         CanGenerateMessages b2 = (False, b2) \<and> NextStep nr b2 = b2 \<and>
         Finish b2 = (None, b2) \<and> state (snd (Finish b2)) \<noteq> Finished_state"
proof -
  have a: "state b1 = Abort_state" using assms(1) by (simp add: state_Abort)
  from aborted_run [OF a assms(2)] have b: "state b2 = Abort_state"
    and c: "\<forall>r \<in> set rs. fst r \<noteq> Some True" by simp_all
  show ?thesis using a b c aborted_calls [OF b] Abort_state_distinct by simp
qed

lemma Abort_first:
  "finalError b = None \<Longrightarrow>
   finalError (snd (Abort culprit err b)) = Some (Errorf_abort culprit err) \<and>
   done_closed (snd (Abort culprit err b))"
  by (simp add: Abort_def close_done_def Let_def)

lemma Abort_later:
  "finalError b = Some old \<Longrightarrow>
   Abort culprit err b =
     (None, b\<lparr>state := Abort_state, finalError := Some (Errorf_abort_more old culprit err)\<rparr>)"
  by (simp add: Abort_def Let_def)

lemma recorded_step:
  assumes "finalError b = Some old" and "done_closed b" and "state b = Abort_state"
    and "call_step ra nr c b = (r, b')"
  shows "\<exists>new suffix. finalError b' = Some new \<and> ErrorString new = ErrorString old @ suffix
           \<and> done_closed b' \<and> state b' = Abort_state"
proof (cases c)
  case (Call_Abort culprit err)
  with assms(4) Abort_later [OF assms(1), of culprit err]
  have "b' = b\<lparr>state := Abort_state, finalError := Some (Errorf_abort_more old culprit err)\<rparr>"
    by simp
  then show ?thesis using assms(2) by (simp add: Errorf_abort_more_def)
qed (use assms in \<open>auto simp: aborted_calls\<close>)

lemma recorded_run:
  assumes "finalError b = Some old" and "done_closed b" and "state b = Abort_state"
    and "call_run ra nr cs b = (rs, b')"
  shows "\<exists>new suffix. finalError b' = Some new \<and> ErrorString new = ErrorString old @ suffix
           \<and> done_closed b'"
  using assms
proof (induction cs arbitrary: b rs b' old)
  case Nil
  then show ?case by simp
next
  case (Cons c cs)
  obtain r b1 where s: "call_step ra nr c b = (r, b1)" by (cases "call_step ra nr c b")
  obtain rs1 b2 where t: "call_run ra nr cs b1 = (rs1, b2)" by (cases "call_run ra nr cs b1")
  from Cons.prems(4) s t have eq: "b' = b2" by simp
  from recorded_step [OF Cons.prems(1-3) s] obtain mid suf1 where
    m: "finalError b1 = Some mid" "ErrorString mid = ErrorString old @ suf1"
       "done_closed b1" "state b1 = Abort_state" by blast
  from Cons.IH [OF m(1) m(3) m(4) t] obtain new suf2 where
    n: "finalError b2 = Some new" "ErrorString new = ErrorString mid @ suf2" "done_closed b2"
    by blast
  show ?case using eq m(2) n by simp
qed

lemma no_abort_step:
  assumes "no_abort_inv b" and "\<not> is_Abort_call c" and "call_step ra nr c b = (r, b')"
  shows "no_abort_inv b' \<and> snd r = None \<and> (state b = Finished_state \<longrightarrow> state b' = Finished_state)
     \<and> (c = Call_Finish \<longrightarrow> state b' = Finished_state)"
  using assms
  by (cases c)
    (auto simp: no_abort_inv_def CanProcessMessages_def CanProcessRound_def
      CanGenerateMessages_def NextStep_def Finish_def PrepareNextRound_def close_done_def
      RoundState_defs split: if_splits)

lemma no_abort_run:
  assumes "no_abort_inv b" and "\<forall>c \<in> set cs. \<not> is_Abort_call c"
    and "call_run ra nr cs b = (rs, b')"
  shows "no_abort_inv b' \<and> (\<forall>r \<in> set rs. snd r = None) \<and>
     (state b = Finished_state \<or> Call_Finish \<in> set cs \<longrightarrow> state b' = Finished_state)"
  using assms
proof (induction cs arbitrary: b rs b')
  case Nil
  then show ?case by simp
next
  case (Cons c cs)
  obtain r b1 where s: "call_step ra nr c b = (r, b1)" by (cases "call_step ra nr c b")
  obtain rs1 b2 where t: "call_run ra nr cs b1 = (rs1, b2)" by (cases "call_run ra nr cs b1")
  from Cons.prems(3) s t have eq: "b' = b2" "rs = r # rs1" by simp_all
  from Cons.prems(2) have na: "\<not> is_Abort_call c" "\<forall>c \<in> set cs. \<not> is_Abort_call c" by simp_all
  note st = no_abort_step [OF Cons.prems(1) na(1) s]
  from st have i1: "no_abort_inv b1" by simp
  note ih = Cons.IH [OF i1 na(2) t]
  show ?case using eq st ih by auto
qed

lemma Finish_without_abort:
  assumes "no_abort_inv b" and "\<forall>c \<in> set cs. \<not> is_Abort_call c" and "Call_Finish \<in> set cs"
  shows "WaitForFinish (snd (call_run ra nr cs b)) = Some None"
proof -
  obtain rs b' where r: "call_run ra nr cs b = (rs, b')" by (cases "call_run ra nr cs b")
  from no_abort_run [OF assms(1,2) r] assms(3) show ?thesis unfolding r
    by (auto simp: no_abort_inv_def WaitForFinish_def)
qed

text \<open>
  Claim C6. On a round \<open>b\<close> with no error recorded, \<open>Abort(culprit, err)\<close> records the error
  with the message \<open>abort: party <culprit>: <err>\<close> that wraps \<open>err\<close>, and \<open>WaitForFinish\<close>
  returns it. After any further calls \<open>cs\<close> the recorded error's message still starts with
  that message (a later \<open>Abort\<close> appends \<open>, abort: party <culprit2>: <err2>\<close> to the message
  recorded so far), and \<open>WaitForFinish\<close> returns the recorded error. On a round on which
  \<open>Abort\<close> was never called, after calls \<open>cs0\<close> without \<open>Abort\<close> and with \<open>Finish\<close> among
  them, \<open>WaitForFinish\<close> returns \<open>nil\<close>.
\<close>

theorem Abort_records_first_error:
  assumes "finalError b = None" and "b1 = snd (Abort culprit err b)"
    and "call_run ra nr cs b1 = (rs, b2)"
  shows "finalError b1 =
           Some (GoError (''abort: party '' @ FormatUint (unat culprit) @ '': '' @ verb_w err) err) \<and>
         WaitForFinish b1 = Some (finalError b1) \<and>
         (\<exists>new suffix. finalError b2 = Some new \<and>
            ErrorString new =
              ''abort: party '' @ FormatUint (unat culprit) @ '': '' @ verb_w err @ suffix) \<and>
         WaitForFinish b2 = Some (finalError b2) \<and>
         (\<exists>old. finalError b2 = Some old \<and>
            finalError (snd (Abort culprit2 err2 b2)) =
              Some (GoError (ErrorString old @ '', abort: party '' @ FormatUint (unat culprit2) @
                       '': '' @ verb_w err2) err2)) \<and>
         (no_abort_inv b \<and> (\<forall>c \<in> set cs0. \<not> is_Abort_call c) \<and> Call_Finish \<in> set cs0 \<longrightarrow>
            WaitForFinish (snd (call_run ra nr cs0 b)) = Some None)"
proof -
  from Abort_first [OF assms(1), of culprit err] assms(2)
  have f: "finalError b1 = Some (Errorf_abort culprit err)" and d: "done_closed b1" by simp_all
  have a: "state b1 = Abort_state" using assms(2) by (simp add: state_Abort)
  from recorded_run [OF f d a assms(3)] obtain new suffix where
    n: "finalError b2 = Some new" "ErrorString new = ErrorString (Errorf_abort culprit err) @ suffix"
       "done_closed b2" by blast
  have l: "finalError (snd (Abort culprit2 err2 b2)) = Some (Errorf_abort_more new culprit2 err2)"
    using Abort_later [OF n(1), of culprit2 err2] by simp
  have fin: "no_abort_inv b \<and> (\<forall>c \<in> set cs0. \<not> is_Abort_call c) \<and> Call_Finish \<in> set cs0 \<longrightarrow>
            WaitForFinish (snd (call_run ra nr cs0 b)) = Some None"
    using Finish_without_abort [of b cs0 ra nr] by blast
  show ?thesis using f d n l fin
    by (simp add: WaitForFinish_def Errorf_abort_def Errorf_abort_more_def)
qed

lemma example_Abort:
  "snd (Abort 3 (Some (errors_New ''VSS failed to validate'')) example_round) = example_aborted"
  by (simp add: example_round_def example_aborted_def Abort_def close_done_def Errorf_abort_def
      verb_w_def errors_New_def FormatUint.simps Let_def)

lemma example_run:
  "call_run (\<lambda>q. True) id
     [Call_CanProcessMessages, Call_CanProcessRound, Call_CanGenerateMessages, Call_NextStep,
      Call_Finish, Call_PrepareNextRound] example_aborted =
   ([(Some False, None), (Some False, None), (Some False, None), (None, None), (None, None),
     (Some False, None)], example_aborted)"
  by (simp add: example_aborted_def CanProcessMessages_def CanProcessRound_def
      CanGenerateMessages_def NextStep_def Finish_def PrepareNextRound_def RoundState_defs)

theorem Abort_sticky_witness:
  "fst (CanProcessRound example_round) = True \<and>
   example_aborted = snd (Abort 3 (Some (errors_New ''VSS failed to validate'')) example_round) \<and>
   call_run (\<lambda>q. True) id
     [Call_CanProcessMessages, Call_CanProcessRound, Call_CanGenerateMessages, Call_NextStep,
      Call_Finish, Call_PrepareNextRound] example_aborted =
   ([(Some False, None), (Some False, None), (Some False, None), (None, None), (None, None),
     (Some False, None)], example_aborted) \<and>
   state example_aborted = Abort_state \<and>
   CanProcessRound example_aborted = (False, example_aborted) \<and>
   Finish example_aborted = (None, example_aborted)"
  using Abort_sticky [OF example_Abort [symmetric] example_run] example_Abort example_run
  by (simp add: example_round_def CanProcessRound_def)

lemma example_run2:
  "call_run (\<lambda>q. True) id [Call_Finish, Call_Abort 5 None, Call_CanProcessRound] example_aborted =
   ([(None, None), (None, None), (Some False, None)], example_aborted_twice)"
  by (simp add: example_aborted_def example_aborted_twice_def CanProcessRound_def Finish_def
      Abort_def Errorf_abort_more_def verb_w_def FormatUint.simps RoundState_defs Let_def)

theorem Abort_records_first_error_witness:
  "finalError example_round = None \<and>
   example_aborted = snd (Abort 3 (Some (errors_New ''VSS failed to validate'')) example_round) \<and>
   call_run (\<lambda>q. True) id [Call_Finish, Call_Abort 5 None, Call_CanProcessRound] example_aborted =
     ([(None, None), (None, None), (Some False, None)], example_aborted_twice) \<and>
   finalError example_aborted =
     Some (GoError ''abort: party 3: VSS failed to validate''
             (Some (GoError ''VSS failed to validate'' None))) \<and>
   finalError example_aborted_twice =
     Some (GoError ''abort: party 3: VSS failed to validate, abort: party 5: %!w(<nil>)'' None) \<and>
   WaitForFinish example_aborted = Some (finalError example_aborted) \<and>
   WaitForFinish example_aborted_twice = Some (finalError example_aborted_twice) \<and>
   no_abort_inv example_round \<and>
   WaitForFinish (snd (call_run (\<lambda>q. True) id [Call_CanProcessRound, Call_NextStep, Call_Finish]
       example_round)) = Some None"
proof -
  have h1: "finalError example_round = None" by (simp add: example_round_def)
  have h2: "no_abort_inv example_round"
    by (simp add: no_abort_inv_def example_round_def RoundState_defs)
  have h3: "\<forall>c \<in> set [Call_CanProcessRound, Call_NextStep, Call_Finish]. \<not> is_Abort_call c"
    by simp
  have h4: "Call_Finish \<in> set [Call_CanProcessRound, Call_NextStep, Call_Finish]" by simp
  note t = Abort_records_first_error [OF h1 example_Abort [symmetric] example_run2,
      of 7 None "[Call_CanProcessRound, Call_NextStep, Call_Finish]"]
  from t h2 h3 h4 have w3:
    "WaitForFinish (snd (call_run (\<lambda>q. True) id [Call_CanProcessRound, Call_NextStep, Call_Finish]
       example_round)) = Some None" by blast
  from t have w1: "WaitForFinish example_aborted = Some (finalError example_aborted)"
    and w2: "WaitForFinish example_aborted_twice = Some (finalError example_aborted_twice)"
    by blast+
  have e1: "finalError example_aborted =
     Some (GoError ''abort: party 3: VSS failed to validate''
             (Some (GoError ''VSS failed to validate'' None)))"
    by (simp add: example_aborted_def)
  have e2: "finalError example_aborted_twice =
     Some (GoError ''abort: party 3: VSS failed to validate, abort: party 5: %!w(<nil>)'' None)"
    by (simp add: example_aborted_twice_def)
  show ?thesis using h1 h2 w1 w2 w3 e1 e2 example_Abort [symmetric] example_run2
    by (intro conjI)
qed

section \<open>Properties: construction of the party list\<close>

lemma loop_zero:
  "0 \<in> set ids \<Longrightarrow> \<exists>err. NewBaseRound_loop self ids (f, fin, oth) = Inl err"
  by (induction ids arbitrary: f fin oth) auto

lemma loop_nonzero:
  "0 \<notin> set ids \<Longrightarrow>
   \<exists>fin' oth'. NewBaseRound_loop self ids (f, fin, oth) = Inr (f \<or> self \<in> set ids, fin', oth')"
proof (induction ids arbitrary: f fin oth)
  case Nil
  then show ?case by simp
next
  case (Cons i ids)
  then have nz: "i \<noteq> 0" "0 \<notin> set ids" by auto
  note ih = Cons.IH [OF nz(2)]
  consider (self) "i = self" "\<not> f" | (new) "\<not> (i = self \<and> \<not> f)" "oth i = None"
    | (old) "\<not> (i = self \<and> \<not> f)" "oth i \<noteq> None" by blast
  then show ?case
  proof cases
    case self
    have step: "NewBaseRound_loop self (i # ids) (f, fin, oth) =
        NewBaseRound_loop self ids (True, fin @ [i], oth)" using nz(1) self by simp
    have comp: "(f \<or> self \<in> set (i # ids)) = (True \<or> self \<in> set ids)" using self by simp
    show ?thesis unfolding step comp by (rule ih)
  next
    case new
    have step: "NewBaseRound_loop self (i # ids) (f, fin, oth) =
        NewBaseRound_loop self ids (f, fin @ [i], oth(i \<mapsto> True))" using nz(1) new by auto
    have comp: "(f \<or> self \<in> set (i # ids)) = (f \<or> self \<in> set ids)" using new by auto
    show ?thesis unfolding step comp by (rule ih)
  next
    case old
    have step: "NewBaseRound_loop self (i # ids) (f, fin, oth) =
        NewBaseRound_loop self ids (f, fin, oth)" using nz(1) old by auto
    have comp: "(f \<or> self \<in> set (i # ids)) = (f \<or> self \<in> set ids)" using old by auto
    show ?thesis unfolding step comp by (rule ih)
  qed
qed

lemma loop_distinct:
  "0 \<notin> set ids \<Longrightarrow> distinct ids \<Longrightarrow> \<forall>i \<in> set ids. oth i = None \<Longrightarrow> (f \<longrightarrow> self \<notin> set ids) \<Longrightarrow>
   NewBaseRound_loop self ids (f, fin, oth) =
     Inr (f \<or> self \<in> set ids, fin @ ids,
          (\<lambda>i. if i \<in> set ids \<and> i \<noteq> self then Some True else oth i))"
proof (induction ids arbitrary: f fin oth)
  case Nil
  then show ?case by simp
next
  case (Cons i ids)
  then have nz: "i \<noteq> 0" "0 \<notin> set ids" and d: "distinct ids" "i \<notin> set ids"
    and o: "oth i = None" "\<forall>j \<in> set ids. oth j = None" by auto
  show ?case
  proof (cases "i = self")
    case True
    with Cons.prems(4) have nf: "\<not> f" by simp
    have s: "True \<longrightarrow> self \<notin> set ids" using d(2) True by simp
    have "NewBaseRound_loop self ids (True, fin @ [i], oth) =
        Inr (True \<or> self \<in> set ids, (fin @ [i]) @ ids,
          (\<lambda>j. if j \<in> set ids \<and> j \<noteq> self then Some True else oth j))"
      by (rule Cons.IH [OF nz(2) d(1) o(2) s])
    then show ?thesis using nz(1) True nf by (auto intro!: ext)
  next
    case False
    have o': "\<forall>j \<in> set ids. (oth(i \<mapsto> True)) j = None" using o(2) d(2) by auto
    have s: "f \<longrightarrow> self \<notin> set ids" using Cons.prems(4) by simp
    have "NewBaseRound_loop self ids (f, fin @ [i], oth(i \<mapsto> True)) =
        Inr (f \<or> self \<in> set ids, (fin @ [i]) @ ids,
          (\<lambda>j. if j \<in> set ids \<and> j \<noteq> self then Some True else (oth(i \<mapsto> True)) j))"
      by (rule Cons.IH [OF nz(2) d(1) o' s])
    then show ?thesis using nz(1) False o(1) d(2) by (auto intro!: ext)
  qed
qed

text \<open>
  Claim C8, as amended. \<open>NewBaseRound\<close> of rounds/base.go returns an error exactly when
  \<open>selfPartyID\<close> is zero, an identifier of the list is zero, \<open>selfPartyID\<close> is not in the
  list (so also on the empty list), or the message queue cannot be created. A duplicate
  identifier is no error and the length of the list is not bounded. For a duplicate-free
  list of non-zero identifiers that contains the non-zero \<open>selfPartyID\<close>, the map handed
  to the queue holds the identifiers other than \<open>selfPartyID\<close>, and when the queue is
  created the construction succeeds with \<open>AllPartyIDs\<close> the list itself. \<open>NewBaseRound\<close> of
  base\_round.go, which takes a party set already built, returns an error exactly when
  the set does not contain \<open>selfID\<close>.
\<close>

theorem NewBaseRound_errors:
  "((\<exists>err. NewBaseRound nq self ids ts = Inl err) \<longleftrightarrow>
      self = 0 \<or> 0 \<in> set ids \<or> self \<notin> set ids \<or>
      (\<exists>err. nq self (NewBaseRound_others self ids) ts = Inl err)) \<and>
   (self \<noteq> 0 \<and> 0 \<notin> set ids \<and> self \<in> set ids \<and> distinct ids \<longrightarrow>
      NewBaseRound_others self ids = (\<lambda>i. if i \<in> set ids \<and> i \<noteq> self then Some True else None) \<and>
      (\<forall>q. nq self (NewBaseRound_others self ids) ts = Inr q \<longrightarrow>
         NewBaseRound nq self ids ts =
           Inr \<lparr>AllPartyIDs = ids, OtherPartyIDs = NewBaseRound_others self ids,
                finalError = None, messages = q, roundNumber = 0, done_closed = False,
                selfPartyID = self, state = ProcessRound_state, isProcessingStep = False\<rparr>)) \<and>
   ((\<exists>err. state_NewBaseRound sid pset = Inl err) \<longleftrightarrow> sid \<notin> set pset)"
proof -
  have C: "(\<exists>err. state_NewBaseRound sid pset = Inl err) \<longleftrightarrow> sid \<notin> set pset"
    by (simp add: state_NewBaseRound_def Set_Contains_def)
  have A: "(\<exists>err. NewBaseRound nq self ids ts = Inl err) \<longleftrightarrow>
      self = 0 \<or> 0 \<in> set ids \<or> self \<notin> set ids \<or>
      (\<exists>err. nq self (NewBaseRound_others self ids) ts = Inl err)"
  proof (cases "0 \<in> set ids")
    case True
    from loop_zero [OF True, of self False "[]" Map.empty] show ?thesis
      using True by (auto simp: NewBaseRound_def)
  next
    case False
    from loop_nonzero [OF False, of self False "[]" Map.empty] obtain fin' oth' where
      l: "NewBaseRound_loop self ids (False, [], Map.empty) = Inr (self \<in> set ids, fin', oth')"
      by auto
    then have o: "NewBaseRound_others self ids = oth'" by (simp add: NewBaseRound_others_def)
    show ?thesis using False l o by (auto simp: NewBaseRound_def split: sum.splits)
  qed
  have B: "self \<noteq> 0 \<and> 0 \<notin> set ids \<and> self \<in> set ids \<and> distinct ids \<longrightarrow>
      NewBaseRound_others self ids = (\<lambda>i. if i \<in> set ids \<and> i \<noteq> self then Some True else None) \<and>
      (\<forall>q. nq self (NewBaseRound_others self ids) ts = Inr q \<longrightarrow>
         NewBaseRound nq self ids ts =
           Inr \<lparr>AllPartyIDs = ids, OtherPartyIDs = NewBaseRound_others self ids,
                finalError = None, messages = q, roundNumber = 0, done_closed = False,
                selfPartyID = self, state = ProcessRound_state, isProcessingStep = False\<rparr>)"
  proof (intro impI, elim conjE)
    assume h: "self \<noteq> 0" "0 \<notin> set ids" "self \<in> set ids" "distinct ids"
    have l: "NewBaseRound_loop self ids (False, [], Map.empty) =
       Inr (True, ids, (\<lambda>i. if i \<in> set ids \<and> i \<noteq> self then Some True else None))"
      using loop_distinct [OF h(2) h(4), of Map.empty False self "[]"] h(3) by simp
    then have o: "NewBaseRound_others self ids =
        (\<lambda>i. if i \<in> set ids \<and> i \<noteq> self then Some True else None)"
      by (simp add: NewBaseRound_others_def)
    show "NewBaseRound_others self ids = (\<lambda>i. if i \<in> set ids \<and> i \<noteq> self then Some True else None) \<and>
      (\<forall>q. nq self (NewBaseRound_others self ids) ts = Inr q \<longrightarrow>
         NewBaseRound nq self ids ts =
           Inr \<lparr>AllPartyIDs = ids, OtherPartyIDs = NewBaseRound_others self ids,
                finalError = None, messages = q, roundNumber = 0, done_closed = False,
                selfPartyID = self, state = ProcessRound_state, isProcessingStep = False\<rparr>)"
      using h(1) l o by (simp add: NewBaseRound_def)
  qed
  from A B C show ?thesis by blast
qed

text \<open>
  Claim C8 as stated fails: the list \<open>[1, 2, 2]\<close> has a duplicate, and \<open>NewBaseRound\<close>
  returns a round for it (the second \<open>2\<close> is dropped), not an error.
\<close>

theorem NewBaseRound_duplicate_accepted:
  "NewBaseRound (\<lambda>s others ts. Inr ()) 1 [1, 2, 2] ([] :: unit list) =
     Inr \<lparr>AllPartyIDs = [1, 2], OtherPartyIDs = [2 \<mapsto> True],
          finalError = None, messages = (), roundNumber = 0, done_closed = False,
          selfPartyID = 1, state = ProcessRound_state, isProcessingStep = False\<rparr>"
  by (simp add: NewBaseRound_def)

theorem NewBaseRound_errors_witness:
  "NewBaseRound (\<lambda>s others ts. Inr ()) 1 [3, 1, 2] ([] :: unit list) =
     Inr \<lparr>AllPartyIDs = [3, 1, 2], OtherPartyIDs = NewBaseRound_others 1 [3, 1, 2],
          finalError = None, messages = (), roundNumber = 0, done_closed = False,
          selfPartyID = 1, state = ProcessRound_state, isProcessingStep = False\<rparr> \<and>
   NewBaseRound_others 1 [3, 1, 2] = (\<lambda>i. if i \<in> set [3, 1, 2] \<and> i \<noteq> 1 then Some True else None) \<and>
   (\<exists>err. NewBaseRound (\<lambda>s others ts. Inr ()) 1 [] ([] :: unit list) = Inl err) \<and>
   (\<exists>err. NewBaseRound (\<lambda>s others ts. Inr ()) 1 [1, 0] ([] :: unit list) = Inl err) \<and>
   (\<exists>err. NewBaseRound (\<lambda>s others ts. Inr ()) 0 [1, 2] ([] :: unit list) = Inl err) \<and>
   (\<exists>err. NewBaseRound (\<lambda>s others ts. Inr ()) 4 [1, 2] ([] :: unit list) = Inl err) \<and>
   state_NewBaseRound 2 [1, 2, 3] = Inr \<lparr>selfID = 2, partySet = [1, 2, 3]\<rparr> \<and>
   (\<exists>err. state_NewBaseRound 4 [1, 2, 3] = Inl err)"
  using NewBaseRound_errors [of "\<lambda>s others ts. Inr ()" 1 "[3, 1, 2]" "[] :: unit list"]
    NewBaseRound_errors [of "\<lambda>s others ts. Inr ()" 1 "[]" "[] :: unit list"]
    NewBaseRound_errors [of "\<lambda>s others ts. Inr ()" 1 "[1, 0]" "[] :: unit list"]
    NewBaseRound_errors [of "\<lambda>s others ts. Inr ()" 0 "[1, 2]" "[] :: unit list"]
    NewBaseRound_errors [of "\<lambda>s others ts. Inr ()" 4 "[1, 2]" "[] :: unit list" 4 "[1, 2, 3]"]
  by (simp add: state_NewBaseRound_def Set_Contains_def)

section \<open>Properties: keygen round 2\<close>

lemma ScalarMult_int: "ScalarMult n (P :: int) = int n * P"
  by (induction n) (simp_all add: algebra_simps)

lemma ScalarMult_add: "ScalarMult n (P + Q) = ScalarMult n P + ScalarMult n Q"
  by (induction n) (simp_all add: algebra_simps)

lemma ScalarMult_zero: "ScalarMult n 0 = 0"
  by (induction n) simp_all

lemma Evaluate_Add:
  "Exponent_Evaluate (Exponent_Add xs ys) x = Exponent_Evaluate xs x + Exponent_Evaluate ys x"
  by (induction xs ys rule: Exponent_Add.induct) (simp_all add: ScalarMult_add algebra_simps)

lemma Evaluate_Sum:
  "Exponent_Evaluate (Exponent_Sum cs) x = (\<Sum>c\<leftarrow>cs. Exponent_Evaluate c x)"
  by (induction cs) (simp_all add: Exponent_Sum_def Evaluate_Add)

lemma Exponent_Add_Nil: "Exponent_Add xs ys = [] \<longleftrightarrow> xs = [] \<and> ys = []"
  by (induction xs ys rule: Exponent_Add.induct) simp_all

lemma Exponent_Sum_Nil: "Exponent_Sum cs = [] \<longleftrightarrow> (\<forall>c \<in> set cs. c = [])"
  by (induction cs) (simp_all add: Exponent_Sum_def Exponent_Add_Nil)

text \<open>
  Claim C2. For a message of peer \<open>j\<close> that carries a share \<open>s\<close>, with \<open>j\<close>'s commitment
  polynomial on record, \<open>ProcessMessage\<close> returns no error if and only if \<open>[s]B\<close> equals the
  evaluation of \<open>j\<close>'s commitment polynomial at the scalar of the local identifier. When
  they are equal it adds \<open>s\<close> to the accumulated secret (modulo the group order) and
  overwrites the share in the message with zero; when they differ it returns the error
  that names \<open>j\<close>, and the round (so the accumulated secret) and the message are unchanged.
\<close>

theorem ProcessMessage_VSS:
  assumes "KeyGen2 msg = Some kg" and "Commitments round (From msg) = Some commitment"
  shows "((\<exists>round' msg'. ProcessMessage basepoint round msg = Inr (None, round', msg')) \<longleftrightarrow>
            ScalarBaseMult basepoint (Share kg) =
              Exponent_Evaluate commitment (unat (SelfID (base round)))) \<and>
         (ScalarBaseMult basepoint (Share kg) =
              Exponent_Evaluate commitment (unat (SelfID (base round))) \<longrightarrow>
            ProcessMessage basepoint round msg =
              Inr (None, round\<lparr>Secret := (Secret round + Share kg) mod group_order\<rparr>,
                   msg\<lparr>KeyGen2 := Some (kg\<lparr>Share := 0\<rparr>)\<rparr>)) \<and>
         (ScalarBaseMult basepoint (Share kg) \<noteq>
              Exponent_Evaluate commitment (unat (SelfID (base round))) \<longrightarrow>
            ProcessMessage basepoint round msg =
              Inr (Some \<lparr>culpritID = From msg, cause = errors_New ''VSS failed to validate''\<rparr>,
                   round, msg))"
  using assms
  by (simp add: ProcessMessage_def ID_Scalar_eq Let_def state_NewError_def Scalar_Add_def
      NewScalar_def)

theorem ProcessMessage_VSS_witness:
  "ProcessMessage (1 :: int) example_keygen (example_share 11) =
     Inr (None, example_keygen\<lparr>Secret := 51\<rparr>, example_share 0) \<and>
   ProcessMessage (1 :: int) example_keygen (example_share 12) =
     Inr (Some \<lparr>culpritID = 1, cause = errors_New ''VSS failed to validate''\<rparr>,
          example_keygen, example_share 12) \<and>
   ScalarBaseMult (1 :: int) 11 = Exponent_Evaluate [5, 3] (unat (2 :: party_ID)) \<and>
   ScalarBaseMult (1 :: int) 12 \<noteq> Exponent_Evaluate [5, 3] (unat (2 :: party_ID))"
proof -
  have k: "KeyGen2 (example_share 11) = Some \<lparr>Share = 11\<rparr>"
      "KeyGen2 (example_share 12) = Some \<lparr>Share = 12\<rparr>"
    by (simp_all add: example_share_def)
  have c: "Commitments example_keygen (From (example_share 11)) = Some [5, 3]"
      "Commitments example_keygen (From (example_share 12)) = Some [5, 3]"
    by (simp_all add: example_share_def example_keygen_def)
  have e: "ScalarBaseMult (1 :: int) 11 = Exponent_Evaluate [5, 3] (unat (2 :: party_ID))"
      "ScalarBaseMult (1 :: int) 12 \<noteq> Exponent_Evaluate [5, 3] (unat (2 :: party_ID))"
    by (simp_all add: ScalarBaseMult_def ScalarMult_int)
  have s: "SelfID (base example_keygen) = 2" by (simp add: SelfID_def example_keygen_def)
  have g: "(40 + 11) mod group_order = 51" by (simp add: group_order_def)
  from ProcessMessage_VSS [OF k(1) c(1), of 1] e(1) s
  have a: "ProcessMessage (1 :: int) example_keygen (example_share 11) =
     Inr (None, example_keygen\<lparr>Secret := (Secret example_keygen + 11) mod group_order\<rparr>,
          (example_share 11)\<lparr>KeyGen2 := Some (\<lparr>Share = 11\<rparr>\<lparr>Share := 0\<rparr>)\<rparr>)"
    by simp
  from ProcessMessage_VSS [OF k(2) c(2), of 1] e(2) s
  have b: "ProcessMessage (1 :: int) example_keygen (example_share 12) =
     Inr (Some \<lparr>culpritID = 1, cause = errors_New ''VSS failed to validate''\<rparr>,
          example_keygen, example_share 12)"
    by (simp add: example_share_def)
  have a': "example_keygen\<lparr>Secret := (Secret example_keygen + 11) mod group_order\<rparr> =
      example_keygen\<lparr>Secret := 51\<rparr>"
    using g by (simp add: example_keygen_def)
  have a'': "(example_share 11)\<lparr>KeyGen2 := Some (\<lparr>Share = 11\<rparr>\<lparr>Share := 0\<rparr>)\<rparr> = example_share 0"
    by (simp add: example_share_def)
  show ?thesis using a b e unfolding a' a'' by (intro conjI)
qed

lemma GenerateMessages_shares_eq:
  "GenerateMessages_shares cs ids sh =
     Inr (\<lambda>i. if i \<in> set ids then Some (Exponent_Evaluate cs (unat i)) else sh i)"
proof (induction ids arbitrary: sh)
  case Nil
  then show ?case by simp
next
  case (Cons j ids)
  show ?case by (auto simp: ID_Scalar_eq Cons.IH intro!: ext)
qed

text \<open>
  Claim C3. Let \<open>cs\<close> be the commitment polynomials of the parties of the set, in order,
  not all empty, and let \<open>CommitmentsSum\<close> hold their coefficient-wise sum (round 1, which
  is not among the sources, accumulates it). Then \<open>GenerateMessages\<close> of round 2 returns no
  message and no error, and stores a public key whose group key is the constant term of
  the sum and whose share for every party \<open>i\<close> of the set, and for no other identifier,
  is the evaluation of the sum at the scalar of \<open>i\<close>, together with the secret share
  \<open>{selfID, accumulated secret}\<close>.
\<close>

theorem GenerateMessages_output:
  assumes "map (Commitments round) (Set_Range (Set_of (base round))) = map Some cs"
    and "CommitmentsSum round = Exponent_Sum cs"
    and "\<exists>c \<in> set cs. c \<noteq> []"
  shows "\<exists>pub. GenerateMessages round =
           Inr ([], None,
                round\<lparr>Output := (Output round)
                  \<lparr>Public := Some pub,
                   SecretKey := Some \<lparr>ownerID = SelfID (base round),
                                      secret_value = Secret round\<rparr>\<rparr>\<rparr>) \<and>
           Exponent_Constant (Exponent_Sum cs) = Inr (groupKey pub) \<and>
           threshold pub = Threshold round \<and>
           dom (shares pub) = set (partySet (base round)) \<and>
           (\<forall>i \<in> set (partySet (base round)).
              shares pub i = Some (Exponent_Evaluate (Exponent_Sum cs) (unat i)))"
proof -
  from assms(3) have "Exponent_Sum cs \<noteq> []" by (simp add: Exponent_Sum_Nil)
  then obtain k rest where kr: "Exponent_Sum cs = k # rest" by (cases "Exponent_Sum cs") auto
  have c: "Exponent_Constant (Exponent_Sum cs) = Inr k" by (simp add: kr Exponent_Constant_def)
  let ?sh = "\<lambda>i. if i \<in> set (partySet (base round))
                  then Some (Exponent_Evaluate (Exponent_Sum cs) (unat i)) else None"
  let ?pub = "eddsa_NewPublic ?sh (Threshold round) k"
  have g: "GenerateMessages round =
           Inr ([], None,
                round\<lparr>Output := (Output round)
                  \<lparr>Public := Some ?pub,
                   SecretKey := Some \<lparr>ownerID = SelfID (base round),
                                      secret_value = Secret round\<rparr>\<rparr>\<rparr>)"
    by (simp add: GenerateMessages_def GenerateMessages_shares_eq assms(2) c
        Set_Range_def Set_of_def eddsa_NewSecretShare_def)
  have d: "dom ?sh = set (partySet (base round))" by (auto simp: dom_def)
  show ?thesis
    by (rule exI [of _ ?pub])
      (simp add: g d c eddsa_NewPublic_def del: dom_eq_empty_conv)
qed

theorem GenerateMessages_output_witness:
  "map (Commitments example_keygen) (Set_Range (Set_of (base example_keygen))) =
     map Some [[5, 3], [7, 1], [2, 2]] \<and>
   CommitmentsSum example_keygen = Exponent_Sum [[5, 3], [7, 1], [2, 2]] \<and>
   GenerateMessages example_keygen =
     Inr ([], None,
          example_keygen\<lparr>Output :=
            \<lparr>Public = Some \<lparr>shares = [1 \<mapsto> 20, 2 \<mapsto> 26, 3 \<mapsto> 32], threshold = 1, groupKey = 14\<rparr>,
             SecretKey = Some \<lparr>ownerID = 2, secret_value = 40\<rparr>\<rparr>\<rparr>)"
proof -
  have h1: "map (Commitments example_keygen) (Set_Range (Set_of (base example_keygen))) =
     map Some [[5, 3], [7, 1], [2, 2]]"
    by (simp add: example_keygen_def Set_Range_def Set_of_def)
  have h2: "CommitmentsSum example_keygen = Exponent_Sum [[5, 3], [7, 1], [2, 2]]"
    by (simp add: example_keygen_def Exponent_Sum_def)
  have h3: "\<exists>c \<in> set [[5, 3], [7, 1], [2, 2 :: int]]. c \<noteq> []" by simp
  from GenerateMessages_output [OF h1 h2 h3] obtain pub where
    p: "GenerateMessages example_keygen =
           Inr ([], None,
                example_keygen\<lparr>Output := (Output example_keygen)
                  \<lparr>Public := Some pub,
                   SecretKey := Some \<lparr>ownerID = SelfID (base example_keygen),
                                      secret_value = Secret example_keygen\<rparr>\<rparr>\<rparr>)"
    and k: "Exponent_Constant (Exponent_Sum [[5, 3], [7, 1], [2, 2]]) = Inr (groupKey pub)"
    and t: "threshold pub = Threshold example_keygen"
    and d: "dom (shares pub) = set (partySet (base example_keygen))"
    and s: "\<forall>i \<in> set (partySet (base example_keygen)).
              shares pub i = Some (Exponent_Evaluate (Exponent_Sum [[5, 3], [7, 1], [2, 2]]) (unat i))"
    by blast
  have sum: "Exponent_Sum [[5, 3], [7, 1], [2, 2 :: int]] = [14, 6]" by (simp add: Exponent_Sum_def)
  have k': "groupKey pub = 14" using k by (simp add: sum Exponent_Constant_def)
  have t': "threshold pub = 1" using t by (simp add: example_keygen_def)
  have ps: "partySet (base example_keygen) = [1, 2, 3]" by (simp add: example_keygen_def)
  have s': "shares pub = [1 \<mapsto> 20, 2 \<mapsto> 26, 3 \<mapsto> 32]"
  proof (rule ext)
    fix i
    show "shares pub i = [1 \<mapsto> 20, 2 \<mapsto> 26, 3 \<mapsto> 32] i"
    proof (cases "i \<in> {1, 2, 3}")
      case True
      then show ?thesis using s by (auto simp: ps sum ScalarMult_int)
    next
      case False
      then have "i \<notin> dom (shares pub)" using d by (simp add: ps)
      then show ?thesis using False by (auto simp: dom_def)
    qed
  qed
  have pub: "pub = \<lparr>shares = [1 \<mapsto> 20, 2 \<mapsto> 26, 3 \<mapsto> 32], threshold = 1, groupKey = 14\<rparr>"
    using k' t' s' by (cases pub) simp
  show ?thesis using h1 h2 p unfolding pub
    by (simp add: example_keygen_def SelfID_def)
qed

section \<open>Properties: sign round 1\<close>

lemma response_mod:
  "((e * rho + (l * s mod n * c) mod n) mod n + d) mod n = (d + rho * e + l * s * c) mod n"
  for n :: nat
proof -
  have 1: "(l * s mod n * c) mod n = (l * s * c) mod n" by (simp add: mod_mult_left_eq)
  have 2: "(e * rho + (l * s * c) mod n) mod n = (e * rho + l * s * c) mod n"
    by (simp add: mod_add_right_eq)
  have 3: "((e * rho + l * s * c) mod n + d) mod n = (e * rho + l * s * c + d) mod n"
    by (simp add: mod_add_left_eq)
  show ?thesis unfolding 1 2 3 by (simp add: ac_simps)
qed

lemma ProcessRound_z_eq:
  "ProcessRound_z lagrange secret c nonce_e rho nonce_d =
     (nonce_d + rho * nonce_e + lagrange * secret * c) mod group_order"
  unfolding ProcessRound_z_def Scalar_Multiply_def Scalar_MultiplyAdd_def Scalar_Add_def Let_def
  by (rule response_mod)

lemma ProcessRound_buffer_eq:
  "set ids \<subseteq> dom ps \<Longrightarrow>
   ProcessRound_buffer enc ps ids buffer = Inr (buffer @ transcript enc ps ids)"
proof (induction ids arbitrary: buffer)
  case Nil
  then show ?case by (simp add: transcript_def)
next
  case (Cons i ids)
  then obtain party where p: "ps i = Some party" and s: "set ids \<subseteq> dom ps" by auto
  show ?case using p Cons.IH [OF s] by (simp add: transcript_def)
qed

lemma ProcessRound_buffer_missing:
  "\<not> set ids \<subseteq> dom ps \<Longrightarrow> ProcessRound_buffer enc ps ids buffer = Inl NilDereference"
proof (induction ids arbitrary: buffer)
  case Nil
  then show ?case by simp
next
  case (Cons i ids)
  show ?case
  proof (cases "ps i")
    case None
    then show ?thesis by simp
  next
    case (Some party)
    with Cons.prems have "\<not> set ids \<subseteq> dom ps" by auto
    from Cons.IH [OF this] Some show ?thesis by simp
  qed
qed

lemma SetUniformBytes_digest:
  "\<forall>x. length (sha512 x) = 64 \<Longrightarrow> SetUniformBytes (sha512 x) = Inr (le_nat (sha512 x) mod group_order)"
  by (simp add: SetUniformBytes_def)

lemma ProcessRound_parties_eq:
  assumes len: "\<forall>x. length (sha512 x) = 64"
  shows "distinct order \<Longrightarrow> set order \<subseteq> dom ps \<Longrightarrow>
   ProcessRound_parties sha512 msg B order (ps, r) =
     Inr (\<lambda>i. if i \<in> set order then map_option (bound_party sha512 msg B i) (ps i) else ps i,
          r + (\<Sum>i\<leftarrow>order. Ri (bound_party sha512 msg B i (the (ps i)))))"
proof (induction order arbitrary: ps r)
  case Nil
  then show ?case by simp
next
  case (Cons i ids)
  then obtain party where p: "ps i = Some party" and d: "distinct ids" "i \<notin> set ids"
    and s: "set ids \<subseteq> dom ps" by auto
  let ?party' = "bound_party sha512 msg B i party"
  let ?ps' = "ps(i \<mapsto> ?party')"
  have s': "set ids \<subseteq> dom ?ps'" using s by auto
  have step: "ProcessRound_parties sha512 msg B (i # ids) (ps, r) =
      ProcessRound_parties sha512 msg B ids (?ps', r + Ri ?party')"
    using p SetUniformBytes_digest [OF len]
    by (simp add: bound_party_def binding_factor_def Let_def add.commute)
  have m: "(\<lambda>j. if j \<in> set ids then map_option (bound_party sha512 msg B j) (?ps' j) else ?ps' j) =
      (\<lambda>j. if j \<in> set (i # ids) then map_option (bound_party sha512 msg B j) (ps j) else ps j)"
    using d(2) p by (auto intro!: ext)
  have "(\<Sum>j\<leftarrow>ids. Ri (bound_party sha512 msg B j (the (?ps' j)))) =
      (\<Sum>j\<leftarrow>ids. Ri (bound_party sha512 msg B j (the (ps j))))"
    using d(2) by (intro arg_cong [where f = sum_list] map_cong) auto
  then have t: "r + Ri ?party' + (\<Sum>j\<leftarrow>ids. Ri (bound_party sha512 msg B j (the (?ps' j)))) =
      r + (\<Sum>j\<leftarrow>i # ids. Ri (bound_party sha512 msg B j (the (ps j))))"
    using p by (simp add: add.assoc)
  show ?case unfolding step Cons.IH [OF d(1) s'] m t ..
qed

lemma sum_list_keys:
  "distinct order \<Longrightarrow> set order = dom ps \<Longrightarrow> (\<Sum>i\<leftarrow>order. f i) = (\<Sum>i\<in>dom ps. f i)"
  for f :: "uint32 \<Rightarrow> 'a::comm_monoid_add"
  by (metis sum_list_distinct_conv_sum_set)

lemma ComputeChallenge_digest:
  "\<forall>x. length (sha512 x) = 64 \<Longrightarrow>
   ComputeChallenge sha512 enc msg pk r = Inr (le_nat (sha512 (enc r @ enc pk @ msg)) mod group_order)"
  by (simp add: ComputeChallenge_def SetUniformBytes_def)

lemma ProcessRound_result:
  assumes len: "\<forall>x. length (sha512 x) = 64"
    and dist: "distinct order" and keys: "set order = dom (Parties round)"
    and allp: "set (AllParties round) \<subseteq> dom (Parties round)"
    and self: "Parties round (PartySelf round) = Some me"
    and sec: "sign_Secret round = Some secret"
    and np: "\<not> roundProcessed round"
    and B: "B = transcript enc (Parties round) (AllParties round)"
    and r: "r = (\<Sum>i\<in>dom (Parties round).
                  Ri (bound_party sha512 (Message round) B i (the (Parties round i))))"
    and c: "c = le_nat (sha512 (enc r @ enc (round_Y round) @ Message round)) mod group_order"
    and z: "z = (round_d round + binding_factor sha512 (Message round) B (PartySelf round) * round_e round
                 + Lagrange me * secret * c) mod group_order"
  shows "ProcessRound sha512 enc order round =
           Inr (None,
                round\<lparr>Parties :=
                        (\<lambda>i. map_option (bound_party sha512 (Message round) B i) (Parties round i))
                          (PartySelf round \<mapsto>
                             (bound_party sha512 (Message round) B (PartySelf round) me)\<lparr>Zi := z\<rparr>),
                      round_R := r, round_C := c, roundProcessed := True\<rparr>)"
proof -
  have b: "ProcessRound_buffer enc (Parties round) (AllParties round) [] = Inr B"
    using ProcessRound_buffer_eq [OF allp, of enc "[]"] B by simp
  have sub: "set order \<subseteq> dom (Parties round)" using keys by simp
  have m: "(\<lambda>i. if i \<in> set order then map_option (bound_party sha512 (Message round) B i) (Parties round i)
                else Parties round i) =
           (\<lambda>i. map_option (bound_party sha512 (Message round) B i) (Parties round i))"
    using keys by (auto intro!: ext simp: dom_def)
  have p: "ProcessRound_parties sha512 (Message round) B order (Parties round, 0) =
      Inr (\<lambda>i. map_option (bound_party sha512 (Message round) B i) (Parties round i), r)"
    unfolding ProcessRound_parties_eq [OF len dist sub] m r sum_list_keys [OF dist keys] by simp
  have ch: "ComputeChallenge sha512 enc (Message round) (round_Y round) r = Inr c"
    using ComputeChallenge_digest [OF len] c by simp
  have zz: "ProcessRound_z (Lagrange (bound_party sha512 (Message round) B (PartySelf round) me)) secret c
      (round_e round) (Pi (bound_party sha512 (Message round) B (PartySelf round) me)) (round_d round) = z"
    unfolding ProcessRound_z_eq z by (simp add: bound_party_def)
  show ?thesis
    using np by (simp add: ProcessRound_def b p ch self sec zz Let_def)
qed

lemma ProcessMessages_frame:
  "ProcessMessages order round = Inr round' \<Longrightarrow>
   round' = round\<lparr>Parties := Parties round', msgs1 := msgs1 round'\<rparr> \<and>
   dom (Parties round') = dom (Parties round)"
proof (induction order arbitrary: round)
  case Nil
  then show ?case by simp
next
  case (Cons i ids)
  show ?case
  proof (cases "Parties round i")
    case None
    with Cons.prems have "ProcessMessages ids round = Inr round'" by simp
    from Cons.IH [OF this] show ?thesis .
  next
    case (Some party)
    show ?thesis
    proof (cases "i = PartySelf round")
      case True
      with Some Cons.prems have "ProcessMessages ids round = Inr round'" by simp
      from Cons.IH [OF this] show ?thesis .
    next
      case False
      with Some Cons.prems obtain m where m: "msgs1 round i = Some m"
        by (cases "msgs1 round i") auto
      let ?mid = "round\<lparr>Parties := (Parties round)(i \<mapsto> party\<lparr>Di := Sign1_Di m, Ei := Sign1_Ei m\<rparr>),
                          msgs1 := (msgs1 round)(i := None)\<rparr>"
      from Some False m Cons.prems have "ProcessMessages ids ?mid = Inr round'" by simp
      from Cons.IH [OF this] have
        a: "round' = ?mid\<lparr>Parties := Parties round', msgs1 := msgs1 round'\<rparr>"
        and d: "dom (Parties round') = dom (Parties ?mid)" by blast+
      have dm: "dom (Parties ?mid) = dom (Parties round)" using Some by auto
      from a have "round' = round\<lparr>Parties := Parties round', msgs1 := msgs1 round'\<rparr>" by simp
      moreover have "dom (Parties round') = dom (Parties round)" unfolding d dm ..
      ultimately show ?thesis by simp
    qed
  qed
qed

lemma ProcessRound_combined_result:
  assumes len: "\<forall>x. length (sha512 x) = 64"
    and pm: "ProcessMessages order1 round0 = Inr round"
    and nr: "\<not> readyForNextRound round0"
    and dist: "distinct order" and keys: "set order = dom (Parties round)"
    and allp: "set (AllParties round) \<subseteq> dom (Parties round)"
    and self: "Parties round (PartySelf round) = Some me"
    and sec: "sign_Secret round = Some secret"
    and B: "B = transcript enc (Parties round) (AllParties round)"
    and r: "r = (\<Sum>i\<in>dom (Parties round).
                  Ri (bound_party sha512 (Message round) B i (the (Parties round i))))"
    and c: "c = le_nat (sha512 (enc r @ enc (round_Y round) @ Message round)) mod group_order"
    and z: "z = (round_d round + binding_factor sha512 (Message round) B (PartySelf round) * round_e round
                 + Lagrange me * secret * c) mod group_order"
  shows "ProcessRound_combined sha512 enc order1 order round0 =
           Inr ([\<lparr>Sign2_From = PartySelf round, Sign2_Zi = z\<rparr>], None,
                round\<lparr>Parties :=
                        (\<lambda>i. map_option (bound_party sha512 (Message round) B i) (Parties round i))
                          (PartySelf round \<mapsto>
                             (bound_party sha512 (Message round) B (PartySelf round) me)\<lparr>Zi := z\<rparr>),
                      round_R := r, round_C := c, readyForNextRound := True\<rparr>)"
proof -
  have b: "ProcessRound_buffer enc (Parties round) (AllParties round) [] = Inr B"
    using ProcessRound_buffer_eq [OF allp, of enc "[]"] B by simp
  have sub: "set order \<subseteq> dom (Parties round)" using keys by simp
  have m: "(\<lambda>i. if i \<in> set order then map_option (bound_party sha512 (Message round) B i) (Parties round i)
                else Parties round i) =
           (\<lambda>i. map_option (bound_party sha512 (Message round) B i) (Parties round i))"
    using keys by (auto intro!: ext simp: dom_def)
  have p: "ProcessRound_parties sha512 (Message round) B order (Parties round, 0) =
      Inr (\<lambda>i. map_option (bound_party sha512 (Message round) B i) (Parties round i), r)"
    unfolding ProcessRound_parties_eq [OF len dist sub] m r sum_list_keys [OF dist keys] by simp
  have ch: "ComputeChallenge sha512 enc (Message round) (round_Y round) r = Inr c"
    using ComputeChallenge_digest [OF len] c by simp
  have zz: "ProcessRound_z (Lagrange (bound_party sha512 (Message round) B (PartySelf round) me)) secret c
      (round_e round) (Pi (bound_party sha512 (Message round) B (PartySelf round) me)) (round_d round) = z"
    unfolding ProcessRound_z_eq z by (simp add: bound_party_def)
  show ?thesis
    using nr by (simp add: ProcessRound_combined_def pm b p ch self sec zz Let_def messages_NewSign2_def)
qed

lemma ProcessRound_frame:
  "ProcessRound sha512 enc order round = Inr (None, round') \<Longrightarrow>
   round' = round\<lparr>Parties := Parties round', round_R := round_R round', round_C := round_C round',
                  roundProcessed := True\<rparr>"
  by (auto simp: ProcessRound_def Let_def split: if_splits sum.splits option.splits prod.splits)

lemma ProcessRound_combined_frame:
  assumes "ProcessRound_combined sha512 enc order1 order round0 = Inr (msgs, None, round')"
  shows "round' = round0\<lparr>Parties := Parties round', msgs1 := msgs1 round',
                  round_R := round_R round', round_C := round_C round', readyForNextRound := True\<rparr>"
proof -
  from assms obtain round where pm: "ProcessMessages order1 round0 = Inr round"
    by (cases "ProcessMessages order1 round0")
      (auto simp: ProcessRound_combined_def split: if_splits)
  from ProcessMessages_frame [OF pm]
  have f: "round = round0\<lparr>Parties := Parties round, msgs1 := msgs1 round\<rparr>" by simp
  from assms pm have e: "round' = round\<lparr>Parties := Parties round', round_R := round_R round',
      round_C := round_C round', readyForNextRound := True\<rparr>"
    by (auto simp: ProcessRound_combined_def Let_def
        split: if_splits sum.splits option.splits prod.splits)
  have ms: "msgs1 round' = msgs1 round" by (subst e) simp
  show ?thesis by (subst e, subst f) (simp add: ms)
qed

lemma round1_computed_result:
  assumes len: "\<forall>x. length (sha512 x) = 64"
    and self: "Parties round (PartySelf round) = Some me"
    and B: "B = transcript enc (Parties round) (AllParties round)"
    and r: "r = (\<Sum>i\<in>dom (Parties round).
                  Ri (bound_party sha512 (Message round) B i (the (Parties round i))))"
    and c: "c = le_nat (sha512 (enc r @ enc (round_Y round) @ Message round)) mod group_order"
    and z: "z = (round_d round + binding_factor sha512 (Message round) B (PartySelf round) * round_e round
                 + Lagrange me * secret * c) mod group_order"
    and ps: "Parties round' =
               (\<lambda>i. map_option (bound_party sha512 (Message round) B i) (Parties round i))
                 (PartySelf round \<mapsto> (bound_party sha512 (Message round) B (PartySelf round) me)\<lparr>Zi := z\<rparr>)"
    and rr: "round_R round' = r" and rc: "round_C round' = c"
  shows "round1_computed sha512 enc secret round round'"
proof -
  have su: "\<And>i. SetUniformBytes (sha512 (string_bytes ''FROST-SHA512'' @ BigEndian_PutUint32 i @
        Message round @ B)) = Inr (binding_factor sha512 (Message round) B i)"
    using len by (simp add: SetUniformBytes_def binding_factor_def)
  have each: "\<And>i party. Parties round i = Some party \<Longrightarrow>
      \<exists>party'. Parties round' i = Some party' \<and>
        Pi party' = binding_factor sha512 (Message round) B i \<and>
        Ri party' = Ri (bound_party sha512 (Message round) B i party) \<and>
        Ri party' = Di party + ScalarMult (Pi party') (Ei party) \<and>
        Di party' = Di party \<and> Ei party' = Ei party \<and> Lagrange party' = Lagrange party"
    using self by (auto simp: ps bound_party_def)
  have a: "\<forall>i party. Parties round i = Some party \<longrightarrow>
        (\<exists>party'. Parties round' i = Some party' \<and>
           SetUniformBytes
             (sha512 (string_bytes ''FROST-SHA512'' @ BigEndian_PutUint32 i @ Message round @
                      transcript enc (Parties round) (AllParties round))) = Inr (Pi party') \<and>
           Ri party' = Di party + ScalarMult (Pi party') (Ei party) \<and>
           Di party' = Di party \<and> Ei party' = Ei party \<and> Lagrange party' = Lagrange party)"
    unfolding B [symmetric] su by (auto dest!: each)
  have d: "dom (Parties round') = dom (Parties round)"
    using self by (auto simp: ps dom_def split: if_splits)
  have "(\<Sum>i\<in>dom (Parties round). Ri (the (Parties round' i))) =
        (\<Sum>i\<in>dom (Parties round). Ri (bound_party sha512 (Message round) B i (the (Parties round i))))"
  proof (rule sum.cong [OF refl])
    fix i assume "i \<in> dom (Parties round)"
    then obtain party where p: "Parties round i = Some party" by auto
    from each [OF p] p
    show "Ri (the (Parties round' i)) = Ri (bound_party sha512 (Message round) B i (the (Parties round i)))"
      by auto
  qed
  then have s: "round_R round' = (\<Sum>i\<in>dom (Parties round'). Ri (the (Parties round' i)))"
    unfolding d rr r by simp
  have ch: "ComputeChallenge sha512 enc (Message round) (round_Y round) (round_R round') =
       Inr (round_C round')"
    using len by (simp add: ComputeChallenge_def SetUniformBytes_def rr rc c)
  have zz: "\<exists>self'. Parties round' (PartySelf round) = Some self' \<and>
        Zi self' = (round_d round + Pi self' * round_e round +
                    Lagrange self' * secret * round_C round') mod group_order"
    by (simp add: ps rc z bound_party_def)
  show ?thesis unfolding round1_computed_def using a d s ch zz by blast
qed

lemma round1_runs:
  assumes len: "\<forall>x. length (sha512 x) = 64"
    and dist: "distinct order" and keys: "set order = dom (Parties round)"
    and allp: "set (AllParties round) \<subseteq> dom (Parties round)"
    and self: "PartySelf round \<in> dom (Parties round)"
    and sec: "sign_Secret round = Some secret"
  shows "(\<not> roundProcessed round \<longrightarrow>
            (\<exists>round'. ProcessRound sha512 enc order round = Inr (None, round') \<and>
               round1_computed sha512 enc secret round round')) \<and>
         (\<forall>round0 order1. \<not> readyForNextRound round0 \<and> ProcessMessages order1 round0 = Inr round \<longrightarrow>
            (\<exists>round' z. ProcessRound_combined sha512 enc order1 order round0 =
                 Inr ([\<lparr>Sign2_From = PartySelf round, Sign2_Zi = z\<rparr>], None, round') \<and>
               round1_computed sha512 enc secret round round' \<and>
               map_option Zi (Parties round' (PartySelf round)) = Some z))"
proof -
  from self obtain me where me: "Parties round (PartySelf round) = Some me" by auto
  define B where "B = transcript enc (Parties round) (AllParties round)"
  define r where "r = (\<Sum>i\<in>dom (Parties round).
                  Ri (bound_party sha512 (Message round) B i (the (Parties round i))))"
  define c where "c = le_nat (sha512 (enc r @ enc (round_Y round) @ Message round)) mod group_order"
  define z where "z = (round_d round + binding_factor sha512 (Message round) B (PartySelf round) * round_e round
                 + Lagrange me * secret * c) mod group_order"
  define ps where "ps = (\<lambda>i. map_option (bound_party sha512 (Message round) B i) (Parties round i))
                 (PartySelf round \<mapsto> (bound_party sha512 (Message round) B (PartySelf round) me)\<lparr>Zi := z\<rparr>)"
  have one: "\<not> roundProcessed round \<longrightarrow>
            (\<exists>round'. ProcessRound sha512 enc order round = Inr (None, round') \<and>
               round1_computed sha512 enc secret round round')"
  proof
    assume np: "\<not> roundProcessed round"
    let ?round' = "round\<lparr>Parties := ps, round_R := r, round_C := c, roundProcessed := True\<rparr>"
    have "ProcessRound sha512 enc order round = Inr (None, ?round')"
      unfolding ps_def by (rule ProcessRound_result [OF len dist keys allp me sec np B_def r_def c_def z_def])
    moreover have "round1_computed sha512 enc secret round ?round'"
      by (rule round1_computed_result [OF len me B_def r_def c_def z_def]) (simp_all add: ps_def)
    ultimately show "\<exists>round'. ProcessRound sha512 enc order round = Inr (None, round') \<and>
               round1_computed sha512 enc secret round round'" by blast
  qed
  have two: "\<forall>round0 order1. \<not> readyForNextRound round0 \<and> ProcessMessages order1 round0 = Inr round \<longrightarrow>
            (\<exists>round' z. ProcessRound_combined sha512 enc order1 order round0 =
                 Inr ([\<lparr>Sign2_From = PartySelf round, Sign2_Zi = z\<rparr>], None, round') \<and>
               round1_computed sha512 enc secret round round' \<and>
               map_option Zi (Parties round' (PartySelf round)) = Some z)"
  proof (intro allI impI, elim conjE)
    fix round0 order1
    assume nr: "\<not> readyForNextRound round0" and pm: "ProcessMessages order1 round0 = Inr round"
    let ?round' = "round\<lparr>Parties := ps, round_R := r, round_C := c, readyForNextRound := True\<rparr>"
    have "ProcessRound_combined sha512 enc order1 order round0 =
        Inr ([\<lparr>Sign2_From = PartySelf round, Sign2_Zi = z\<rparr>], None, ?round')"
      unfolding ps_def
      by (rule ProcessRound_combined_result [OF len pm nr dist keys allp me sec B_def r_def c_def z_def])
    moreover have "round1_computed sha512 enc secret round ?round'"
      by (rule round1_computed_result [OF len me B_def r_def c_def z_def]) (simp_all add: ps_def)
    moreover have "map_option Zi (Parties ?round' (PartySelf round)) = Some z"
      by (simp add: ps_def)
    ultimately show "\<exists>round' z. ProcessRound_combined sha512 enc order1 order round0 =
                 Inr ([\<lparr>Sign2_From = PartySelf round, Sign2_Zi = z\<rparr>], None, round') \<and>
               round1_computed sha512 enc secret round round' \<and>
               map_option Zi (Parties round' (PartySelf round)) = Some z" by blast
  qed
  from one two show ?thesis ..
qed

text \<open>
  Claim C1. Let the digest have 64 bytes, let \<open>order\<close> list the keys of \<open>Parties\<close> once
  each (the order in which the map is ranged over), let every identifier of \<open>AllParties\<close>
  and \<open>PartySelf\<close> be keys, and let the secret be set. Then \<open>ProcessRound\<close> returns without
  error, in the version with separate steps and in \<open>round1.go\<close> (there on the round as
  \<open>ProcessMessages\<close> leaves it, and the one message it sends carries \<open>z_self\<close>), and
  \<open>round1_computed\<close> holds of the round before and after: for every party \<open>i\<close>,
  \<open>Pi = SetUniformBytes(SHA-512("FROST-SHA512" || ID_i (4 bytes, big-endian) || M || B))\<close>
  with \<open>B\<close> the concatenation of \<open>ID || Di || Ei\<close> in the order of \<open>AllParties\<close>,
  \<open>Ri = Di + [Pi]Ei\<close>, \<open>R\<close> is the sum of all \<open>Ri\<close>, \<open>c\<close> is the challenge of
  \<open>(R, Y, M)\<close>, and \<open>z_self = d + Pi_self * e + Lagrange_self * secret * c\<close> modulo the
  group order.
\<close>

theorem ProcessRound_computes:
  assumes "\<forall>x. length (sha512 x) = 64"
    and "distinct order" and "set order = dom (Parties round)"
    and "set (AllParties round) \<subseteq> dom (Parties round)"
    and "PartySelf round \<in> dom (Parties round)"
    and "sign_Secret round = Some secret"
  shows "(\<not> roundProcessed round \<longrightarrow>
            (\<exists>round'. ProcessRound sha512 enc order round = Inr (None, round') \<and>
               round1_computed sha512 enc secret round round')) \<and>
         (\<forall>round0 order1. \<not> readyForNextRound round0 \<and> ProcessMessages order1 round0 = Inr round \<longrightarrow>
            (\<exists>round' z. ProcessRound_combined sha512 enc order1 order round0 =
                 Inr ([\<lparr>Sign2_From = PartySelf round, Sign2_Zi = z\<rparr>], None, round') \<and>
               round1_computed sha512 enc secret round round' \<and>
               map_option Zi (Parties round' (PartySelf round)) = Some z))"
  by (rule round1_runs [OF assms])

lemma demo_hash_length: "\<forall>x. length (demo_hash x) = 64"
  by (simp add: demo_hash_def)

lemma le_nat_demo_hash: "le_nat (demo_hash x) = unat (sum_list x + of_nat (length x))"
  by (simp add: demo_hash_def le_nat_replicate_zero)

lemma sum_list_replicate_zero: "sum_list (replicate n (0 :: byte)) = 0"
  by (induction n) auto

lemma example_transcript:
  "transcript demo_enc (Parties example_sign) (AllParties example_sign) =
     [0, 0, 0, 1] @ 10 # replicate 31 0 @ 20 # replicate 31 0 @
     [0, 0, 0, 2] @ 30 # replicate 31 0 @ 40 # replicate 31 0"
  by (simp add: transcript_def example_sign_def demo_enc_def BigEndian_PutUint32_def)

lemma example_ProcessMessages:
  "ProcessMessages [1, 2] example_sign_waiting = Inr example_sign"
  by (simp add: example_sign_waiting_def example_sign_def)

lemma example_ProcessRound:
  "ProcessRound demo_hash demo_enc [1, 2] example_sign = Inr (None, example_signed)"
  by (simp add: ProcessRound_def example_sign_def example_signed_def
      ProcessRound_z_def Scalar_Multiply_def Scalar_MultiplyAdd_def Scalar_Add_def
      ComputeChallenge_def SetUniformBytes_def le_nat_demo_hash demo_hash_length
      demo_enc_def BigEndian_PutUint32_def string_bytes_def sum_list_replicate_zero
      ScalarMult_int group_order_def Let_def)

lemma example_ProcessRound_reversed:
  "ProcessRound demo_hash demo_enc [2, 1] example_sign = Inr (None, example_signed)"
  by (simp add: ProcessRound_def example_sign_def example_signed_def
      ProcessRound_z_def Scalar_Multiply_def Scalar_MultiplyAdd_def Scalar_Add_def
      ComputeChallenge_def SetUniformBytes_def le_nat_demo_hash demo_hash_length
      demo_enc_def BigEndian_PutUint32_def string_bytes_def sum_list_replicate_zero
      ScalarMult_int group_order_def Let_def fun_upd_twist)

lemma example_ProcessRound_combined:
  "ProcessRound_combined demo_hash demo_enc [1, 2] [1, 2] example_sign_waiting =
     Inr ([\<lparr>Sign2_From = 1, Sign2_Zi = 5241\<rparr>], None,
          example_signed\<lparr>roundProcessed := False, readyForNextRound := True\<rparr>)"
  by (simp add: ProcessRound_combined_def example_ProcessMessages)
    (simp add: example_sign_def example_signed_def messages_NewSign2_def
      ProcessRound_z_def Scalar_Multiply_def Scalar_MultiplyAdd_def Scalar_Add_def
      ComputeChallenge_def SetUniformBytes_def le_nat_demo_hash demo_hash_length
      demo_enc_def BigEndian_PutUint32_def string_bytes_def sum_list_replicate_zero
      ScalarMult_int group_order_def Let_def example_sign_waiting_def)

lemma example_CanProcess: "CanProcess order (example_sign_waiting\<lparr>msgs1 := Map.empty\<rparr>) = True"
  by (simp add: CanProcess_def example_sign_waiting_def)

lemma example_panic:
  "ProcessRound_combined sha512 enc [1, 2] order2 (example_sign_waiting\<lparr>msgs1 := Map.empty\<rparr>) =
     Inl NilDereference"
  by (simp add: ProcessRound_combined_def example_sign_waiting_def)

lemma example_ProcessRound_peer:
  "ProcessRound demo_hash demo_enc [2, 1] example_sign_peer = Inr (None, example_signed_peer)"
  by (simp add: ProcessRound_def example_sign_peer_def example_signed_peer_def
      ProcessRound_z_def Scalar_Multiply_def Scalar_MultiplyAdd_def Scalar_Add_def
      ComputeChallenge_def SetUniformBytes_def le_nat_demo_hash demo_hash_length
      demo_enc_def BigEndian_PutUint32_def string_bytes_def sum_list_replicate_zero
      ScalarMult_int group_order_def Let_def fun_upd_twist)

lemma example_hyps:
  "distinct [1, 2 :: uint32]" "set [1, 2] = dom (Parties example_sign)"
  "set (AllParties example_sign) \<subseteq> dom (Parties example_sign)"
  "PartySelf example_sign \<in> dom (Parties example_sign)"
  "sign_Secret example_sign = Some 11" "\<not> roundProcessed example_sign"
  "\<not> readyForNextRound example_sign_waiting"
  by (auto simp: example_sign_def example_sign_waiting_def)

theorem ProcessRound_computes_witness:
  "(\<forall>x. length (demo_hash x) = 64) \<and> distinct [1, 2 :: uint32] \<and>
   set [1, 2] = dom (Parties example_sign) \<and>
   set (AllParties example_sign) \<subseteq> dom (Parties example_sign) \<and>
   PartySelf example_sign \<in> dom (Parties example_sign) \<and>
   sign_Secret example_sign = Some 11 \<and> \<not> roundProcessed example_sign \<and>
   ProcessRound demo_hash demo_enc [1, 2] example_sign = Inr (None, example_signed) \<and>
   round1_computed demo_hash demo_enc 11 example_sign example_signed \<and>
   \<not> readyForNextRound example_sign_waiting \<and>
   ProcessMessages [1, 2] example_sign_waiting = Inr example_sign \<and>
   ProcessRound_combined demo_hash demo_enc [1, 2] [1, 2] example_sign_waiting =
     Inr ([\<lparr>Sign2_From = 1, Sign2_Zi = 5241\<rparr>], None,
          example_signed\<lparr>roundProcessed := False, readyForNextRound := True\<rparr>) \<and>
   round1_computed demo_hash demo_enc 11 example_sign
     (example_signed\<lparr>roundProcessed := False, readyForNextRound := True\<rparr>)"
proof -
  note t = ProcessRound_computes [OF demo_hash_length example_hyps(1-5), of demo_enc]
  from t example_hyps(6) obtain round' where
    "ProcessRound demo_hash demo_enc [1, 2] example_sign = Inr (None, round')"
    "round1_computed demo_hash demo_enc 11 example_sign round'" by blast
  then have a: "round1_computed demo_hash demo_enc 11 example_sign example_signed"
    by (simp add: example_ProcessRound)
  from t example_hyps(7) example_ProcessMessages obtain round'' z where
    "ProcessRound_combined demo_hash demo_enc [1, 2] [1, 2] example_sign_waiting =
       Inr ([\<lparr>Sign2_From = PartySelf example_sign, Sign2_Zi = z\<rparr>], None, round'')"
    "round1_computed demo_hash demo_enc 11 example_sign round''" by blast
  then have b: "round1_computed demo_hash demo_enc 11 example_sign
     (example_signed\<lparr>roundProcessed := False, readyForNextRound := True\<rparr>)"
    by (simp add: example_ProcessRound_combined)
  show ?thesis
    using demo_hash_length example_hyps example_ProcessRound example_ProcessMessages
      example_ProcessRound_combined a b by (intro conjI)
qed

lemma dom_eq_None: "dom f = dom g \<Longrightarrow> f i = None \<longleftrightarrow> g i = None"
  by (metis domIff)

lemma dom_eq_Some: "dom f = dom g \<Longrightarrow> f i = Some x \<Longrightarrow> \<exists>y. g i = Some y"
  by (metis domIff option.distinct(1) option.exhaust)

lemma transcript_agree:
  assumes "dom psa = dom psb"
    and "\<forall>i pa pb. psa i = Some pa \<and> psb i = Some pb \<longrightarrow> Di pa = Di pb \<and> Ei pa = Ei pb"
  shows "transcript enc psa ids = transcript enc psb ids"
proof -
  have "\<And>i. (case psa i of None \<Rightarrow> []
               | Some party \<Rightarrow> BigEndian_PutUint32 i @ enc (Di party) @ enc (Ei party)) =
             (case psb i of None \<Rightarrow> []
               | Some party \<Rightarrow> BigEndian_PutUint32 i @ enc (Di party) @ enc (Ei party))"
  proof -
    fix i
    show "(case psa i of None \<Rightarrow> []
               | Some party \<Rightarrow> BigEndian_PutUint32 i @ enc (Di party) @ enc (Ei party)) =
             (case psb i of None \<Rightarrow> []
               | Some party \<Rightarrow> BigEndian_PutUint32 i @ enc (Di party) @ enc (Ei party))"
    proof (cases "psa i")
      case None
      then have "psb i = None" using dom_eq_None [OF assms(1), of i] by simp
      with None show ?thesis by simp
    next
      case (Some pa)
      then obtain pb where "psb i = Some pb" using dom_eq_Some [OF assms(1)] by blast
      with Some assms(2) show ?thesis by auto
    qed
  qed
  then show ?thesis by (simp add: transcript_def)
qed

lemma round1_computed_party:
  assumes "round1_computed sha512 enc secret round round'" and "Parties round i = Some party"
    and "Parties round' i = Some party'"
  shows "SetUniformBytes
           (sha512 (string_bytes ''FROST-SHA512'' @ BigEndian_PutUint32 i @ Message round @
                    transcript enc (Parties round) (AllParties round))) = Inr (Pi party') \<and>
         Ri party' = Di party + ScalarMult (Pi party') (Ei party)"
proof -
  from assms(1) have "\<forall>i party. Parties round i = Some party \<longrightarrow>
        (\<exists>party'. Parties round' i = Some party' \<and>
           SetUniformBytes
             (sha512 (string_bytes ''FROST-SHA512'' @ BigEndian_PutUint32 i @ Message round @
                      transcript enc (Parties round) (AllParties round))) = Inr (Pi party') \<and>
           Ri party' = Di party + ScalarMult (Pi party') (Ei party) \<and>
           Di party' = Di party \<and> Ei party' = Ei party \<and> Lagrange party' = Lagrange party)"
    unfolding round1_computed_def by (rule conjunct1)
  with assms(2) obtain q where "Parties round' i = Some q"
    "SetUniformBytes
             (sha512 (string_bytes ''FROST-SHA512'' @ BigEndian_PutUint32 i @ Message round @
                      transcript enc (Parties round) (AllParties round))) = Inr (Pi q)"
    "Ri q = Di party + ScalarMult (Pi q) (Ei party)" by blast
  with assms(3) show ?thesis by simp
qed

lemma round1_computed_rest:
  assumes "round1_computed sha512 enc secret round round'"
  shows "dom (Parties round') = dom (Parties round)"
    and "round_R round' = (\<Sum>i\<in>dom (Parties round'). Ri (the (Parties round' i)))"
    and "ComputeChallenge sha512 enc (Message round) (round_Y round) (round_R round') =
           Inr (round_C round')"
  using assms unfolding round1_computed_def by blast+

lemma computed_agree:
  assumes ca: "round1_computed sha512 enc sa ra ra'" and cb: "round1_computed sha512 enc sb rb rb'"
    and same: "AllParties ra = AllParties rb" "Message ra = Message rb" "round_Y ra = round_Y rb"
      "dom (Parties ra) = dom (Parties rb)"
    and nonces: "\<forall>i pa pb. Parties ra i = Some pa \<and> Parties rb i = Some pb \<longrightarrow>
                   Di pa = Di pb \<and> Ei pa = Ei pb"
  shows "round1_agree ra' rb'"
proof -
  have tr: "transcript enc (Parties ra) (AllParties ra) = transcript enc (Parties rb) (AllParties rb)"
    unfolding same(1) by (rule transcript_agree [OF same(4) nonces])
  have da: "dom (Parties ra') = dom (Parties ra)" and db: "dom (Parties rb') = dom (Parties rb)"
    by (rule round1_computed_rest(1) [OF ca], rule round1_computed_rest(1) [OF cb])
  have each: "\<And>i pa' pb'. Parties ra' i = Some pa' \<Longrightarrow> Parties rb' i = Some pb' \<Longrightarrow>
      Pi pa' = Pi pb' \<and> Ri pa' = Ri pb'"
  proof -
    fix i pa' pb'
    assume a: "Parties ra' i = Some pa'" and b: "Parties rb' i = Some pb'"
    from dom_eq_Some [OF da a] obtain pa where pa: "Parties ra i = Some pa" by blast
    from dom_eq_Some [OF db b] obtain pb where pb: "Parties rb i = Some pb" by blast
    from round1_computed_party [OF ca pa a] have fa: "SetUniformBytes
             (sha512 (string_bytes ''FROST-SHA512'' @ BigEndian_PutUint32 i @ Message ra @
                      transcript enc (Parties ra) (AllParties ra))) = Inr (Pi pa')"
      "Ri pa' = Di pa + ScalarMult (Pi pa') (Ei pa)"
      by blast+
    from round1_computed_party [OF cb pb b] have fb: "SetUniformBytes
             (sha512 (string_bytes ''FROST-SHA512'' @ BigEndian_PutUint32 i @ Message rb @
                      transcript enc (Parties rb) (AllParties rb))) = Inr (Pi pb')"
      "Ri pb' = Di pb + ScalarMult (Pi pb') (Ei pb)"
      by blast+
    from fa(1) fb(1) have p: "Pi pa' = Pi pb'" unfolding tr same(2) by simp
    from nonces pa pb have "Di pa = Di pb" "Ei pa = Ei pb" by blast+
    with fa(2) fb(2) p show "Pi pa' = Pi pb' \<and> Ri pa' = Ri pb'" by simp
  qed
  have d: "dom (Parties ra') = dom (Parties rb')" using da db same(4) by simp
  have "(\<Sum>i\<in>dom (Parties ra'). Ri (the (Parties ra' i))) =
        (\<Sum>i\<in>dom (Parties rb'). Ri (the (Parties rb' i)))"
  proof (rule sum.cong [OF d])
    fix i assume "i \<in> dom (Parties rb')"
    then obtain pb' where b: "Parties rb' i = Some pb'" by auto
    then obtain pa' where a: "Parties ra' i = Some pa'" using dom_eq_Some [OF d [symmetric]] by blast
    from each [OF a b] a b show "Ri (the (Parties ra' i)) = Ri (the (Parties rb' i))" by simp
  qed
  then have r: "round_R ra' = round_R rb'"
    unfolding round1_computed_rest(2) [OF ca] round1_computed_rest(2) [OF cb] .
  have "ComputeChallenge sha512 enc (Message ra) (round_Y ra) (round_R ra') =
       Inr (round_C ra')" by (rule round1_computed_rest(3) [OF ca])
  moreover have "ComputeChallenge sha512 enc (Message rb) (round_Y rb) (round_R rb') =
       Inr (round_C rb')" by (rule round1_computed_rest(3) [OF cb])
  ultimately have c: "round_C ra' = round_C rb'" unfolding same r by simp
  show ?thesis unfolding round1_agree_def using d each r c by blast
qed

text \<open>
  Claim C4. Take two rounds (after the peers' messages are recorded) with the same
  \<open>AllParties\<close>, the same message, the same group key \<open>Y\<close>, the same keys of \<open>Parties\<close> and
  the same \<open>Di\<close> and \<open>Ei\<close> for every party; \<open>PartySelf\<close>, the secrets, the nonces and the
  orders \<open>oa\<close> and \<open>ob\<close> in which the two runs range over the map may differ. Then both
  runs build the same buffer \<open>B\<close>, both return without error, and the results agree
  (\<open>round1_agree\<close>): the same \<open>Pi\<close> and \<open>Ri\<close> for every party, the same \<open>R\<close> and the same
  \<open>c\<close>. This holds for both versions of \<open>ProcessRound\<close>.
\<close>

theorem transcript_deterministic:
  assumes len: "\<forall>x. length (sha512 x) = 64"
    and same: "AllParties ra = AllParties rb" "Message ra = Message rb" "round_Y ra = round_Y rb"
      "dom (Parties ra) = dom (Parties rb)"
    and nonces: "\<forall>i pa pb. Parties ra i = Some pa \<and> Parties rb i = Some pb \<longrightarrow>
                   Di pa = Di pb \<and> Ei pa = Ei pb"
    and oa: "distinct oa" "set oa = dom (Parties ra)"
    and ob: "distinct ob" "set ob = dom (Parties rb)"
    and allp: "set (AllParties ra) \<subseteq> dom (Parties ra)"
    and selfa: "PartySelf ra \<in> dom (Parties ra)" and selfb: "PartySelf rb \<in> dom (Parties rb)"
    and seca: "sign_Secret ra = Some sa" and secb: "sign_Secret rb = Some sb"
  shows "(\<exists>B. ProcessRound_buffer enc (Parties ra) (AllParties ra) [] = Inr B \<and>
              ProcessRound_buffer enc (Parties rb) (AllParties rb) [] = Inr B) \<and>
         (\<not> roundProcessed ra \<and> \<not> roundProcessed rb \<longrightarrow>
            (\<exists>ra' rb'. ProcessRound sha512 enc oa ra = Inr (None, ra') \<and>
                        ProcessRound sha512 enc ob rb = Inr (None, rb') \<and> round1_agree ra' rb')) \<and>
         (\<forall>ra0 rb0 o1a o1b.
            \<not> readyForNextRound ra0 \<and> \<not> readyForNextRound rb0 \<and>
            ProcessMessages o1a ra0 = Inr ra \<and> ProcessMessages o1b rb0 = Inr rb \<longrightarrow>
            (\<exists>ma mb ra' rb'.
               ProcessRound_combined sha512 enc o1a oa ra0 = Inr (ma, None, ra') \<and>
               ProcessRound_combined sha512 enc o1b ob rb0 = Inr (mb, None, rb') \<and>
               round1_agree ra' rb'))"
proof -
  have allpb: "set (AllParties rb) \<subseteq> dom (Parties rb)" using allp same by simp
  note runa = round1_runs [OF len oa allp selfa seca, of enc]
  note runb = round1_runs [OF len ob allpb selfb secb, of enc]
  note agree = computed_agree [OF _ _ same nonces]
  have tr: "transcript enc (Parties ra) (AllParties ra) = transcript enc (Parties rb) (AllParties rb)"
    unfolding same(1) by (rule transcript_agree [OF same(4) nonces])
  have one: "\<exists>B. ProcessRound_buffer enc (Parties ra) (AllParties ra) [] = Inr B \<and>
              ProcessRound_buffer enc (Parties rb) (AllParties rb) [] = Inr B"
    using ProcessRound_buffer_eq [OF allp, of enc "[]"] ProcessRound_buffer_eq [OF allpb, of enc "[]"] tr
    by simp
  have two: "\<not> roundProcessed ra \<and> \<not> roundProcessed rb \<longrightarrow>
            (\<exists>ra' rb'. ProcessRound sha512 enc oa ra = Inr (None, ra') \<and>
                        ProcessRound sha512 enc ob rb = Inr (None, rb') \<and> round1_agree ra' rb')"
    using runa runb agree by blast
  have three: "\<forall>ra0 rb0 o1a o1b.
            \<not> readyForNextRound ra0 \<and> \<not> readyForNextRound rb0 \<and>
            ProcessMessages o1a ra0 = Inr ra \<and> ProcessMessages o1b rb0 = Inr rb \<longrightarrow>
            (\<exists>ma mb ra' rb'.
               ProcessRound_combined sha512 enc o1a oa ra0 = Inr (ma, None, ra') \<and>
               ProcessRound_combined sha512 enc o1b ob rb0 = Inr (mb, None, rb') \<and>
               round1_agree ra' rb')"
  proof (intro allI impI, elim conjE)
    fix ra0 rb0 o1a o1b
    assume h: "\<not> readyForNextRound ra0" "\<not> readyForNextRound rb0"
      "ProcessMessages o1a ra0 = Inr ra" "ProcessMessages o1b rb0 = Inr rb"
    from runa h(1,3) obtain ra' za where
      a: "ProcessRound_combined sha512 enc o1a oa ra0 =
           Inr ([\<lparr>Sign2_From = PartySelf ra, Sign2_Zi = za\<rparr>], None, ra')"
         "round1_computed sha512 enc sa ra ra'" by blast
    from runb h(2,4) obtain rb' zb where
      b: "ProcessRound_combined sha512 enc o1b ob rb0 =
           Inr ([\<lparr>Sign2_From = PartySelf rb, Sign2_Zi = zb\<rparr>], None, rb')"
         "round1_computed sha512 enc sb rb rb'" by blast
    from agree [OF a(2) b(2)] a(1) b(1)
    show "\<exists>ma mb ra' rb'.
               ProcessRound_combined sha512 enc o1a oa ra0 = Inr (ma, None, ra') \<and>
               ProcessRound_combined sha512 enc o1b ob rb0 = Inr (mb, None, rb') \<and>
               round1_agree ra' rb'" by blast
  qed
  from one two three show ?thesis by blast
qed

lemma example_ProcessMessages_peer:
  "ProcessMessages [2, 1] example_sign_peer_waiting = Inr example_sign_peer"
  by (simp add: example_sign_peer_waiting_def example_sign_peer_def fun_upd_twist)

lemma example_ProcessRound_combined_peer:
  "ProcessRound_combined demo_hash demo_enc [2, 1] [2, 1] example_sign_peer_waiting =
     Inr ([\<lparr>Sign2_From = 2, Sign2_Zi = 9209\<rparr>], None,
          example_signed_peer\<lparr>roundProcessed := False, readyForNextRound := True\<rparr>)"
  by (simp add: ProcessRound_combined_def example_ProcessMessages_peer)
    (simp add: example_sign_peer_def example_signed_peer_def messages_NewSign2_def
      ProcessRound_z_def Scalar_Multiply_def Scalar_MultiplyAdd_def Scalar_Add_def
      ComputeChallenge_def SetUniformBytes_def le_nat_demo_hash demo_hash_length
      demo_enc_def BigEndian_PutUint32_def string_bytes_def sum_list_replicate_zero
      ScalarMult_int group_order_def Let_def example_sign_peer_waiting_def fun_upd_twist)

lemma example_peer_hyps:
  "distinct [2, 1 :: uint32]" "set [2, 1] = dom (Parties example_sign_peer)"
  "PartySelf example_sign_peer \<in> dom (Parties example_sign_peer)"
  "sign_Secret example_sign_peer = Some 13" "\<not> roundProcessed example_sign_peer"
  "\<not> readyForNextRound example_sign_peer_waiting"
  "AllParties example_sign = AllParties example_sign_peer"
  "Message example_sign = Message example_sign_peer"
  "round_Y example_sign = round_Y example_sign_peer"
  "dom (Parties example_sign) = dom (Parties example_sign_peer)"
  by (auto simp: example_sign_def example_sign_peer_def example_sign_peer_waiting_def)

lemma example_same_nonces:
  "\<forall>i pa pb. Parties example_sign i = Some pa \<and> Parties example_sign_peer i = Some pb \<longrightarrow>
     Di pa = Di pb \<and> Ei pa = Ei pb"
  by (auto simp: example_sign_def example_sign_peer_def split: if_splits)

theorem transcript_deterministic_witness:
  "(\<forall>x. length (demo_hash x) = 64) \<and>
   AllParties example_sign = AllParties example_sign_peer \<and>
   Message example_sign = Message example_sign_peer \<and>
   round_Y example_sign = round_Y example_sign_peer \<and>
   dom (Parties example_sign) = dom (Parties example_sign_peer) \<and>
   PartySelf example_sign = 1 \<and> PartySelf example_sign_peer = 2 \<and>
   ProcessRound demo_hash demo_enc [1, 2] example_sign = Inr (None, example_signed) \<and>
   ProcessRound demo_hash demo_enc [2, 1] example_sign_peer = Inr (None, example_signed_peer) \<and>
   round1_agree example_signed example_signed_peer \<and>
   round_R example_signed = 3380 \<and> round_R example_signed_peer = 3380 \<and>
   round_C example_signed = 223 \<and> round_C example_signed_peer = 223 \<and>
   round1_agree (example_signed\<lparr>roundProcessed := False, readyForNextRound := True\<rparr>)
     (example_signed_peer\<lparr>roundProcessed := False, readyForNextRound := True\<rparr>)"
proof -
  note t = transcript_deterministic [OF demo_hash_length example_peer_hyps(7-10)
      example_same_nonces example_hyps(1,2) example_peer_hyps(1,2) example_hyps(3,4)
      example_peer_hyps(3) example_hyps(5) example_peer_hyps(4), of demo_enc]
  from t example_hyps(6) example_peer_hyps(5) obtain ra' rb' where
    "ProcessRound demo_hash demo_enc [1, 2] example_sign = Inr (None, ra')"
    "ProcessRound demo_hash demo_enc [2, 1] example_sign_peer = Inr (None, rb')"
    "round1_agree ra' rb'" by blast
  then have a: "round1_agree example_signed example_signed_peer"
    by (simp add: example_ProcessRound example_ProcessRound_peer)
  from t example_hyps(7) example_peer_hyps(6) example_ProcessMessages
    example_ProcessMessages_peer obtain ma mb ra'' rb'' where
    "ProcessRound_combined demo_hash demo_enc [1, 2] [1, 2] example_sign_waiting =
       Inr (ma, None, ra'')"
    "ProcessRound_combined demo_hash demo_enc [2, 1] [2, 1] example_sign_peer_waiting =
       Inr (mb, None, rb'')"
    "round1_agree ra'' rb''" by blast
  then have b: "round1_agree (example_signed\<lparr>roundProcessed := False, readyForNextRound := True\<rparr>)
     (example_signed_peer\<lparr>roundProcessed := False, readyForNextRound := True\<rparr>)"
    by (simp add: example_ProcessRound_combined example_ProcessRound_combined_peer)
  have v: "PartySelf example_sign = 1" "PartySelf example_sign_peer = 2"
    "round_R example_signed = 3380" "round_R example_signed_peer = 3380"
    "round_C example_signed = 223" "round_C example_signed_peer = 223"
    by (simp_all add: example_sign_def example_sign_peer_def example_signed_def
        example_signed_peer_def)
  show ?thesis
    using demo_hash_length example_peer_hyps(7-10) example_ProcessRound
      example_ProcessRound_peer a b v by (intro conjI)
qed

text \<open>
  Claim C9, as amended. When \<open>ProcessRound\<close> returns without error, \<open>d\<close> and \<open>e\<close> in the
  round are what they were before the call: they are not erased. The call changes only
  \<open>Parties\<close> (where \<open>Pi\<close>, \<open>Ri\<close> and \<open>z_self\<close> are stored), \<open>R\<close>, \<open>C\<close> and the flag that the
  round is processed, and in \<open>round1.go\<close> also the mailbox \<open>msgs1\<close>.
\<close>

theorem ProcessRound_keeps_nonces:
  "(ProcessRound sha512 enc order round = Inr (None, round') \<longrightarrow>
      round_d round' = round_d round \<and> round_e round' = round_e round \<and>
      round' = round\<lparr>Parties := Parties round', round_R := round_R round',
                     round_C := round_C round', roundProcessed := True\<rparr>) \<and>
   (ProcessRound_combined sha512 enc order1 order2 round = Inr (msgs, None, round'') \<longrightarrow>
      round_d round'' = round_d round \<and> round_e round'' = round_e round \<and>
      round'' = round\<lparr>Parties := Parties round'', msgs1 := msgs1 round'',
                      round_R := round_R round'', round_C := round_C round'',
                      readyForNextRound := True\<rparr>)"
proof (intro conjI impI)
  assume h: "ProcessRound sha512 enc order round = Inr (None, round')"
  note f = ProcessRound_frame [OF h]
  show "round' = round\<lparr>Parties := Parties round', round_R := round_R round',
                     round_C := round_C round', roundProcessed := True\<rparr>" by (rule f)
  show "round_d round' = round_d round" by (subst f) simp
  show "round_e round' = round_e round" by (subst f) simp
next
  assume h: "ProcessRound_combined sha512 enc order1 order2 round = Inr (msgs, None, round'')"
  note f = ProcessRound_combined_frame [OF h]
  show "round'' = round\<lparr>Parties := Parties round'', msgs1 := msgs1 round'',
                      round_R := round_R round'', round_C := round_C round'',
                      readyForNextRound := True\<rparr>" by (rule f)
  show "round_d round'' = round_d round" by (subst f) simp
  show "round_e round'' = round_e round" by (subst f) simp
qed

theorem ProcessRound_keeps_nonces_witness:
  "ProcessRound demo_hash demo_enc [1, 2] example_sign = Inr (None, example_signed) \<and>
   round_d example_sign = 5 \<and> round_e example_sign = 6 \<and>
   round_d example_signed = round_d example_sign \<and> round_e example_signed = round_e example_sign \<and>
   ProcessRound_combined demo_hash demo_enc [1, 2] [1, 2] example_sign_waiting =
     Inr ([\<lparr>Sign2_From = 1, Sign2_Zi = 5241\<rparr>], None,
          example_signed\<lparr>roundProcessed := False, readyForNextRound := True\<rparr>) \<and>
   round_d (example_signed\<lparr>roundProcessed := False, readyForNextRound := True\<rparr>) =
     round_d example_sign_waiting \<and>
   round_e (example_signed\<lparr>roundProcessed := False, readyForNextRound := True\<rparr>) =
     round_e example_sign_waiting"
proof -
  from ProcessRound_keeps_nonces [where ?sha512.0 = demo_hash and ?enc = demo_enc
      and ?order = "[1, 2]" and ?round = example_sign and ?round' = example_signed]
    example_ProcessRound
  have a: "round_d example_signed = round_d example_sign"
    "round_e example_signed = round_e example_sign" by blast+
  from ProcessRound_keeps_nonces [where ?sha512.0 = demo_hash and ?enc = demo_enc
      and ?order1.0 = "[1, 2]" and ?order2.0 = "[1, 2]" and ?round = example_sign_waiting
      and ?msgs = "[\<lparr>Sign2_From = 1, Sign2_Zi = 5241\<rparr>]"
      and ?round'' = "example_signed\<lparr>roundProcessed := False, readyForNextRound := True\<rparr>"]
    example_ProcessRound_combined
  have b: "round_d (example_signed\<lparr>roundProcessed := False, readyForNextRound := True\<rparr>) =
     round_d example_sign_waiting"
    "round_e (example_signed\<lparr>roundProcessed := False, readyForNextRound := True\<rparr>) =
     round_e example_sign_waiting" by blast+
  have v: "round_d example_sign = 5" "round_e example_sign = 6" by (simp_all add: example_sign_def)
  show ?thesis using example_ProcessRound example_ProcessRound_combined a b v by (intro conjI)
qed

text \<open>
  Claim C9 as stated fails: on the example round, with \<open>d = 5\<close> and \<open>e = 6\<close>,
  \<open>ProcessRound\<close> returns without error and \<open>d\<close> and \<open>e\<close> are still 5 and 6, not zero.
\<close>

theorem nonces_not_erased:
  "ProcessRound demo_hash demo_enc [1, 2] example_sign = Inr (None, example_signed) \<and>
   round_d example_signed = 5 \<and> round_e example_signed = 6 \<and>
   round_d example_signed \<noteq> 0 \<and> round_e example_signed \<noteq> 0"
  by (simp add: example_ProcessRound) (simp add: example_signed_def)

lemma CanProcess_loop_eq:
  "CanProcess_loop order round \<longleftrightarrow>
     (\<forall>i \<in> set order. Parties round i \<noteq> None \<and> i \<noteq> PartySelf round \<longrightarrow> msgs1 round i \<noteq> None)"
  by (induction order) auto

lemma CanProcess_eq:
  "CanProcess order round \<longleftrightarrow>
     \<not> readyForNextRound round \<and>
     (int (card (dom (msgs1 round))) = int (length (AllParties round)) - 1 \<longrightarrow>
        (\<forall>i \<in> set order. Parties round i \<noteq> None \<and> i \<noteq> PartySelf round \<longrightarrow> msgs1 round i \<noteq> None))"
  by (simp add: CanProcess_def CanProcess_loop_eq)

text \<open>
  Claim C7 fails on the code. On the example round of two signers with an empty mailbox,
  \<open>CanProcess\<close> returns true although the message of peer 2 is missing: the number of
  messages differs from \<open>len(AllParties)-1\<close>, so the loop that looks for a missing message
  is skipped and the function falls through to \<open>return true\<close>. \<open>ProcessRound\<close> of the same
  file then panics on the missing message.
\<close>

theorem CanProcess_true_without_messages:
  "CanProcess order example_sign_no_messages = True \<and>
   readyForNextRound example_sign_no_messages = False \<and>
   Parties example_sign_no_messages 2 \<noteq> None \<and>
   PartySelf example_sign_no_messages \<noteq> 2 \<and>
   msgs1 example_sign_no_messages 2 = None \<and>
   ProcessRound_combined sha512 enc [1, 2] order2 example_sign_no_messages = Inl NilDereference"
  by (simp add: CanProcess_def ProcessRound_combined_def example_sign_no_messages_def)

end
